theory Spec2Isabelle
  imports Main "HOL-Library.Sublist"
begin

section \<open>JavaScript values used by \<^verbatim>\<open>src/reviewBot.ts\<close>\<close>

text \<open>
  A JavaScript string is a sequence of UTF-16 code units; \<^verbatim>\<open>length\<close> counts code units.
  A string is modelled as the list of its code units, a literal of the source as \<open>js ''...''\<close>.
\<close>

type_synonym jsstring = "nat list"

definition js :: "string \<Rightarrow> jsstring" where
  "js s = map of_char s"

text \<open>
  The numbers the bot handles are line numbers, severities, a PR number and the results of
  \<^verbatim>\<open>parseInt\<close>: doubles with an integer value, the two infinities, or NaN. \<open>Num i\<close> is
  the double of value \<open>i\<close>. Not every integer is a double: from \<open>2^53\<close> up a double has 53
  significant bits, and \<open>to_number\<close> is the conversion of an integer to the nearest double
  (ties to the even significand; from \<open>2^1024 - 2^970\<close> up the result is infinite).
\<close>

datatype number = Num int | NaN | Infinity | NegInfinity

fun bit_length :: "nat \<Rightarrow> nat" where
  "bit_length n = (if n = 0 then 0 else Suc (bit_length (n div 2)))"

definition round_to_double :: "nat \<Rightarrow> nat" where
  "round_to_double n =
     (if n < 2 ^ 53 then n
      else (let e = bit_length n - 53;
                q = n div 2 ^ e;
                r = n mod 2 ^ e
            in (if 2 * r > 2 ^ e \<or> (2 * r = 2 ^ e \<and> odd q) then q + 1 else q) * 2 ^ e))"

definition to_number :: "int \<Rightarrow> number" where
  "to_number i =
     (let m = round_to_double (nat \<bar>i\<bar>)
      in if 2 ^ 1024 \<le> m then (if i < 0 then NegInfinity else Infinity)
         else Num (if i < 0 then - int m else int m))"

text \<open>Truthiness, as \<^verbatim>\<open>!x\<close>, \<^verbatim>\<open>x ? a : b\<close> and \<^verbatim>\<open>x || y\<close> read a value.\<close>

definition truthy_number :: "number \<Rightarrow> bool" where
  "truthy_number n =
     (case n of NaN \<Rightarrow> False | Num i \<Rightarrow> i \<noteq> 0 | Infinity \<Rightarrow> True | NegInfinity \<Rightarrow> True)"

definition truthy_string :: "jsstring option \<Rightarrow> bool" where
  "truthy_string s = (case s of None \<Rightarrow> False | Some t \<Rightarrow> t \<noteq> [])"

text \<open>
  White space and line terminators of ECMAScript (the characters \<^verbatim>\<open>trim\<close> and
  \<^verbatim>\<open>parseInt\<close> strip): TAB, LF, VT, FF, CR, SP, NBSP, U+1680, U+2000..U+200A, U+2028,
  U+2029, U+202F, U+205F, U+3000, U+FEFF.
\<close>

definition is_white_space :: "nat \<Rightarrow> bool" where
  "is_white_space c =
     ((9 \<le> c \<and> c \<le> 13) \<or> c = 32 \<or> c = 160 \<or> c = 5760 \<or> (8192 \<le> c \<and> c \<le> 8202) \<or>
      c = 8232 \<or> c = 8233 \<or> c = 8239 \<or> c = 8287 \<or> c = 12288 \<or> c = 65279)"

text \<open>\<^verbatim>\<open>String.prototype.trim\<close>: white space removed from both ends.\<close>

definition trim :: "jsstring \<Rightarrow> jsstring" where
  "trim s = rev (dropWhile is_white_space (rev (dropWhile is_white_space s)))"

text \<open>
  \<^verbatim>\<open>String.prototype.toLowerCase\<close>. The bot lower-cases a string only to search it for
  the ASCII phrase \<^verbatim>\<open>looks good\<close>; the model maps the code units whose lower case is an
  ASCII letter (A to Z, and U+212A KELVIN SIGN, whose lower case is k) and keeps every other
  code unit.
\<close>

definition lower_unit :: "nat \<Rightarrow> nat" where
  "lower_unit c = (if 65 \<le> c \<and> c \<le> 90 then c + 32 else if c = 8490 then 107 else c)"

definition toLowerCase :: "jsstring \<Rightarrow> jsstring" where
  "toLowerCase s = map lower_unit s"

text \<open>\<^verbatim>\<open>s.includes(p)\<close>: \<open>p\<close> occurs in \<open>s\<close> as a contiguous run.\<close>

fun str_includes :: "jsstring \<Rightarrow> jsstring \<Rightarrow> bool" where
  "str_includes [] p = (p = [])"
| "str_includes (c # s) p = (take (length p) (c # s) = p \<or> str_includes s p)"

text \<open>\<^verbatim>\<open>s.endsWith(x)\<close>, which is what a regular expression \<^verbatim>\<open>x$\<close> without flags tests.\<close>

definition ends_with :: "jsstring \<Rightarrow> jsstring \<Rightarrow> bool" where
  "ends_with s x = (length x \<le> length s \<and> drop (length s - length x) s = x)"

text \<open>\<^verbatim>\<open>s.split('/')\<close>: the pieces between the slashes; one piece when there is no slash.\<close>

fun split_slash :: "jsstring \<Rightarrow> jsstring list" where
  "split_slash [] = [[]]"
| "split_slash (c # s) =
     (if c = 47 then [] # split_slash s
      else (case split_slash s of p # ps \<Rightarrow> (c # p) # ps | [] \<Rightarrow> [[c]]))"

text \<open>\<^verbatim>\<open>xs[i]\<close>: \<^verbatim>\<open>undefined\<close> out of range.\<close>

definition index :: "'a list \<Rightarrow> nat \<Rightarrow> 'a option" where
  "index xs i = (if i < length xs then Some (xs ! i) else None)"

text \<open>Decimal digits, the \<^verbatim>\<open>\d\<close> of a regular expression.\<close>

definition is_digit :: "nat \<Rightarrow> bool" where
  "is_digit c = (48 \<le> c \<and> c \<le> 57)"

text \<open>
  \<^verbatim>\<open>parseInt(s)\<close> with no radix: leading white space is skipped, a sign is read, a prefix
  \<^verbatim>\<open>0x\<close> or \<^verbatim>\<open>0X\<close> selects radix 16, and the longest run of digits of the radix is the
  value, converted to a double; NaN when that run is empty. As in V8, the engine of Node, the
  exact value of the digits is what is rounded, however many digits there are.
\<close>

definition digit_value :: "nat \<Rightarrow> nat option" where
  "digit_value c =
     (if 48 \<le> c \<and> c \<le> 57 then Some (c - 48)
      else if 97 \<le> c \<and> c \<le> 122 then Some (c - 87)
      else if 65 \<le> c \<and> c \<le> 90 then Some (c - 55)
      else None)"

definition is_radix_digit :: "nat \<Rightarrow> nat \<Rightarrow> bool" where
  "is_radix_digit R c = (case digit_value c of None \<Rightarrow> False | Some v \<Rightarrow> v < R)"

definition radix_value :: "nat \<Rightarrow> jsstring \<Rightarrow> nat" where
  "radix_value R Z = foldl (\<lambda>acc c. acc * R + (case digit_value c of None \<Rightarrow> 0 | Some v \<Rightarrow> v)) 0 Z"

definition parseInt :: "jsstring \<Rightarrow> number" where
  "parseInt inputString =
     (let S = dropWhile is_white_space inputString;
          sign = (case S of c # _ \<Rightarrow> if c = 45 then - 1 else 1 | [] \<Rightarrow> (1::int));
          S1 = (case S of c # r \<Rightarrow> if c = 43 \<or> c = 45 then r else S | [] \<Rightarrow> S);
          hex = (case S1 of a # b # _ \<Rightarrow> a = 48 \<and> (b = 120 \<or> b = 88) | _ \<Rightarrow> False);
          R = (if hex then 16 else 10);
          S2 = (if hex then drop 2 S1 else S1);
          Z = takeWhile (is_radix_digit R) S2
      in if Z = [] then NaN else to_number (sign * int (radix_value R Z)))"

text \<open>
  \<^verbatim>\<open>String(n)\<close>, as a template string prints a number. \<open>nat_to_string\<close> writes the
  decimal digits of an integer. A double is printed with the fewest significant digits that
  still denote it: \<open>shortest_decimal x\<close> is the integer with the fewest significant digits
  that converts to the double \<open>x\<close>, the nearest one to \<open>x\<close> when there are several, the
  one with the even last digit when two are equally near. It is \<open>x\<close> itself below \<open>2^53\<close>.
  A number of at most 21 digits is printed in full, a longer one with an exponent.
\<close>

fun nat_to_string :: "nat \<Rightarrow> jsstring" where
  "nat_to_string n = (if n < 10 then [48 + n] else nat_to_string (n div 10) @ [48 + n mod 10])"

definition decimal_candidates :: "nat \<Rightarrow> nat \<Rightarrow> nat list" where
  "decimal_candidates x k =
     (let scale = 10 ^ (length (nat_to_string x) - k);
          lo = (x div scale) * scale;
          hi = lo + scale
      in filter (\<lambda>c. round_to_double c = x)
           (if x - lo < hi - x \<or> (x - lo = hi - x \<and> even (x div scale)) then [lo, hi]
            else [hi, lo]))"

definition shortest_decimal :: "nat \<Rightarrow> nat" where
  "shortest_decimal x =
     (if x < 2 ^ 53 then x
      else (case concat (map (decimal_candidates x) [1..<Suc (length (nat_to_string x))]) of
              [] \<Rightarrow> x
            | c # _ \<Rightarrow> c))"

definition double_to_string :: "nat \<Rightarrow> jsstring" where
  "double_to_string x =
     (let D = nat_to_string (shortest_decimal x);
          n = length D
      in if n \<le> 21 then D
         else (case rev (dropWhile (\<lambda>d. d = 48) (rev D)) of
                 [] \<Rightarrow> D
               | d # ds \<Rightarrow>
                   (if ds = [] then [d] else d # 46 # ds) @ js ''e+'' @ nat_to_string (n - 1)))"

definition number_to_string :: "number \<Rightarrow> jsstring" where
  "number_to_string n =
     (case n of
        NaN \<Rightarrow> js ''NaN''
      | Infinity \<Rightarrow> js ''Infinity''
      | NegInfinity \<Rightarrow> js ''-Infinity''
      | Num i \<Rightarrow>
          (case to_number i of
             Num j \<Rightarrow> if j < 0 then 45 # double_to_string (nat (- j)) else double_to_string (nat j)
           | Infinity \<Rightarrow> js ''Infinity''
           | NegInfinity \<Rightarrow> js ''-Infinity''
           | NaN \<Rightarrow> js ''NaN''))"

subsection \<open>The two regular expressions\<close>

text \<open>
  \<^verbatim>\<open>/\.(ts|js|tsx|jsx)$/.test(name)\<close>: the expression has no flags, so \<^verbatim>\<open>$\<close> is the end
  of the string and the test is that the name ends in one of the four extensions.
\<close>

definition code_extensions :: "jsstring list" where
  "code_extensions = [js ''.ts'', js ''.js'', js ''.tsx'', js ''.jsx'']"

definition is_code_file :: "jsstring \<Rightarrow> bool" where
  "is_code_file name = list_ex (ends_with name) code_extensions"

text \<open>
  \<^verbatim>\<open>/@@ -\d+,?\d* \+(\d+)/\<close> matched at the start of \<open>s\<close>; the result is capture group 1.
  Every quantifier is greedy and is followed by a character it cannot match, so the
  longest run of digits is the only way to match and no backtracking changes the result.
\<close>

definition hunk_match_at :: "jsstring \<Rightarrow> jsstring option" where
  "hunk_match_at s =
     (if take 4 s = js ''@@ -'' then
        (let s1 = drop 4 s;
             a = takeWhile is_digit s1;
             s2 = dropWhile is_digit s1;
             s3 = (case s2 of c # r \<Rightarrow> if c = 44 then r else s2 | [] \<Rightarrow> s2);
             s4 = dropWhile is_digit s3;
             g = takeWhile is_digit (drop 2 s4)
         in if a \<noteq> [] \<and> take 2 s4 = js '' +'' \<and> g \<noteq> [] then Some g else None)
      else None)"

text \<open>\<^verbatim>\<open>patch.match(re)\<close>: the match that starts leftmost in the string.\<close>

fun hunk_match :: "jsstring \<Rightarrow> jsstring option" where
  "hunk_match [] = None"
| "hunk_match (c # s) =
     (case hunk_match_at (c # s) of Some g \<Rightarrow> Some g | None \<Rightarrow> hunk_match s)"

section \<open>Data model\<close>

text \<open>An entry of the list of files of a pull request, as the host returns it.\<close>

record ChangedFile =
  filename :: jsstring
  status :: jsstring
  patch :: "jsstring option"

text \<open>The interfaces \<^verbatim>\<open>ESLintResult\<close> and \<^verbatim>\<open>ReviewComment\<close> of the source.\<close>

record LintMessage =
  ruleId :: "jsstring option"
  severity :: number
  message :: jsstring
  line :: number
  column :: number

record ESLintResult =
  filePath :: jsstring
  messages :: "LintMessage list"

record ReviewComment =
  path :: jsstring
  line :: number
  body :: jsstring

text \<open>
  The part of a chat completion the bot reads: \<^verbatim>\<open>response.choices[0]?.message?.content\<close>.
  A choice may have no message and a message may have no content.
\<close>

record ChatMessage =
  content :: "jsstring option"

record Choice =
  choice_message :: "ChatMessage option"

record ChatCompletion =
  choices :: "Choice list"

text \<open>A thrown value: an \<^verbatim>\<open>Error\<close> with its message.\<close>

datatype error = Error jsstring

section \<open>The outside world\<close>

text \<open>
  Every call that leaves the process, and every line written to the console, is an event.
  A run is modelled by the list of its events so far, oldest first. What the outside answers
  may depend on everything that happened before, so each collaborator is a function of that
  list and of the arguments of the call.

  \<open>CreateReview owner repo pull_number event body comments\<close> and
  \<open>CreateComment owner repo issue_number body\<close> carry the fields of the request.
  \<open>ChatCompletionsCreate\<close> carries the user message; the system message, the model
  (\<^verbatim>\<open>gpt-4\<close>), \<^verbatim>\<open>max_tokens\<close> (500) and \<^verbatim>\<open>temperature\<close> (0.3) are constants of the source.
  A \<open>Console\<close> event says which of the log statements of the source ran, with the values
  it prints.

  The record \<open>env\<close> holds what the class reads from outside: the two variables of
  \<^verbatim>\<open>process.env\<close> that \<^verbatim>\<open>reviewPullRequest\<close> reads, \<^verbatim>\<open>path.extname\<close>,
  \<^verbatim>\<open>octokit.pulls.listFiles\<close>, \<^verbatim>\<open>fs.existsSync\<close>, \<^verbatim>\<open>eslint.lintFiles\<close>,
  \<^verbatim>\<open>fs.readFileSync\<close>, \<^verbatim>\<open>openai.chat.completions.create\<close>,
  \<^verbatim>\<open>octokit.pulls.createReview\<close> and \<^verbatim>\<open>octokit.issues.createComment\<close>. A call
  that rejects or throws answers \<open>Inl\<close>.
\<close>

datatype log_entry =
    StartingReview number jsstring jsstring
  | FoundChangedFiles nat
  | NoCodeFiles
  | ReviewCompleted nat
  | ErrorDuringReview error
  | ESLintFailed jsstring error
  | AIReviewFailed jsstring error
  | OpenAIError error
  | CreateReviewFailed error
  | PostCommentFailed jsstring error

datatype event =
    ListFiles jsstring jsstring number
  | ExistsSync jsstring
  | LintFiles "jsstring list"
  | ReadFileSync jsstring
  | ChatCompletionsCreate jsstring
  | CreateReview jsstring jsstring number jsstring jsstring "ReviewComment list"
  | CreateComment jsstring jsstring number jsstring
  | Console log_entry

record env =
  GITHUB_REPOSITORY :: "jsstring option"
  GITHUB_PR_NUMBER :: "jsstring option"
  extname :: "jsstring \<Rightarrow> jsstring"
  listFiles :: "event list \<Rightarrow> jsstring \<Rightarrow> jsstring \<Rightarrow> number \<Rightarrow> error + ChangedFile list"
  existsSync :: "event list \<Rightarrow> jsstring \<Rightarrow> bool"
  lintFiles :: "event list \<Rightarrow> jsstring list \<Rightarrow> error + ESLintResult list"
  readFileSync :: "event list \<Rightarrow> jsstring \<Rightarrow> error + jsstring"
  chatCompletionsCreate :: "event list \<Rightarrow> jsstring \<Rightarrow> error + ChatCompletion"
  createReview ::
    "event list \<Rightarrow> jsstring \<Rightarrow> jsstring \<Rightarrow> number \<Rightarrow> jsstring \<Rightarrow> jsstring \<Rightarrow> ReviewComment list
       \<Rightarrow> error + unit"
  createComment :: "event list \<Rightarrow> jsstring \<Rightarrow> jsstring \<Rightarrow> number \<Rightarrow> jsstring \<Rightarrow> error + unit"

subsection \<open>Statements that may throw\<close>

text \<open>
  A statement takes the events so far and gives its result, a thrown error (\<open>Inl\<close>) or a
  value (\<open>Inr\<close>), with the events extended. \<^verbatim>\<open>await\<close> is sequencing: nothing runs
  concurrently.
\<close>

type_synonym 'a io = "event list \<Rightarrow> (error + 'a) \<times> event list"

definition io_return :: "'a \<Rightarrow> 'a io" where
  "io_return x t = (Inr x, t)"

definition io_throw :: "error \<Rightarrow> 'a io" where
  "io_throw e t = (Inl e, t)"

definition io_bind :: "'a io \<Rightarrow> ('a \<Rightarrow> 'b io) \<Rightarrow> 'b io" where
  "io_bind m k t = (case m t of (Inl e, t') \<Rightarrow> (Inl e, t') | (Inr x, t') \<Rightarrow> k x t')"

definition try_catch :: "'a io \<Rightarrow> (error \<Rightarrow> 'a io) \<Rightarrow> 'a io" where
  "try_catch m handler t = (case m t of (Inl e, t') \<Rightarrow> handler e t' | (Inr x, t') \<Rightarrow> (Inr x, t'))"

definition io_call :: "event \<Rightarrow> (event list \<Rightarrow> error + 'a) \<Rightarrow> 'a io" where
  "io_call ev answer t = (answer t, t @ [ev])"

definition console :: "log_entry \<Rightarrow> unit io" where
  "console l t = (Inr (), t @ [Console l])"

text \<open>
  \<^verbatim>\<open>for (const x of xs) { ... }\<close>: the body runs for each element in order; \<open>s\<close> is the
  local variable the body updates (the array it pushes to). An error thrown by the body
  leaves the loop.
\<close>

fun for_of :: "'a list \<Rightarrow> ('a \<Rightarrow> 's \<Rightarrow> 's io) \<Rightarrow> 's \<Rightarrow> 's io" where
  "for_of [] loop_body s = io_return s"
| "for_of (x # xs) loop_body s = io_bind (loop_body x s) (for_of xs loop_body)"

section \<open>The review bot\<close>

text \<open>
  The class \<^verbatim>\<open>AICodeReviewBot\<close>. Its three clients (the host, the completion service and
  the analyzer) are the fields of \<open>env\<close>. The three literals below hold the characters
  that stand before the ASCII text in the source file, as code units.
\<close>

definition eslint_error_prefix :: jsstring where
  "eslint_error_prefix = js ''**ESLint Error**: ''"

definition ai_review_marker :: jsstring where
  "ai_review_marker = [240, 376, 164, 8211] @ js '' **AI Code Review**'' @ [10, 10]"

definition no_issues_body :: jsstring where
  "no_issues_body =
     [226, 339, 8230] @ js '' **AI Code Review Complete**'' @ [10, 10] @
     js ''No major issues found! The code looks good to me. '' @ [240, 376, 353, 8364]"

definition review_body :: "nat \<Rightarrow> jsstring" where
  "review_body n =
     [240, 376, 164, 8211] @ js '' **Automated Code Review Results**'' @ [10, 10] @
     js ''Found '' @ nat_to_string n @
     js '' items for review. Please check the inline comments below.''"

definition fallback_body :: "ReviewComment \<Rightarrow> jsstring" where
  "fallback_body comment =
     js ''**'' @ path comment @ js '':'' @ number_to_string (line comment) @ js ''**'' @
     [10, 10] @ body comment"

definition missing_context :: error where
  "missing_context = Error (js ''Missing GitHub context variables'')"

text \<open>The prompt of \<^verbatim>\<open>getAISuggestions\<close>, a template string.\<close>

definition review_prompt :: "env \<Rightarrow> jsstring \<Rightarrow> jsstring \<Rightarrow> jsstring option \<Rightarrow> jsstring" where
  "review_prompt E fileName fileContent patch' =
     js ''As a senior code reviewer, please review this '' @ extname E fileName @
     js '' file and provide constructive feedback focusing on:'' @ [10] @
     js ''1. Code readability and maintainability'' @ [10] @
     js ''2. Naming conventions'' @ [10] @
     js ''3. Potential bugs or improvements'' @ [10] @
     js ''4. Best practices'' @ [10, 10] @
     js ''File: '' @ fileName @ [10, 10] @
     (case patch' of
        None \<Rightarrow> []
      | Some p \<Rightarrow>
          if p \<noteq> [] then
            js ''Changed lines (patch):'' @ [10, 96, 96, 96] @ js ''diff'' @ [10] @ p @ [10, 96, 96, 96]
          else []) @ [10, 10] @
     js ''Full file content:'' @ [10, 96, 96, 96] @ drop 1 (extname E fileName) @ [10] @
     take 3000 fileContent @ js '' '' @ (if length fileContent > 3000 then js ''...'' else []) @
     [10, 96, 96, 96, 10, 10] @
     js ''Please provide specific, actionable feedback. If the code looks good, just say so briefly.''"

text \<open>\<^verbatim>\<open>getChangedFiles\<close>: the list of files of the pull request; a failure is thrown.\<close>

definition getChangedFiles :: "env \<Rightarrow> jsstring \<Rightarrow> jsstring \<Rightarrow> number \<Rightarrow> ChangedFile list io" where
  "getChangedFiles E owner repo prNumber =
     io_call (ListFiles owner repo prNumber) (\<lambda>t. listFiles E t owner repo prNumber)"

text \<open>
  \<^verbatim>\<open>runESLint\<close>: one analyzer call for each path that exists on disk. \<open>lint_file\<close> is
  the body of its loop, \<open>results\<close> the array it pushes to.
\<close>

definition lint_file :: "env \<Rightarrow> jsstring \<Rightarrow> ESLintResult list \<Rightarrow> ESLintResult list io" where
  "lint_file E file_path results =
     io_bind (io_call (ExistsSync file_path) (\<lambda>t. Inr (existsSync E t file_path)))
       (\<lambda>present.
          if present then
            try_catch
              (io_bind (io_call (LintFiles [file_path]) (\<lambda>t. lintFiles E t [file_path]))
                 (\<lambda>eslintResults. io_return (results @ eslintResults)))
              (\<lambda>err. io_bind (console (ESLintFailed file_path err)) (\<lambda>_. io_return results))
          else io_return results)"

definition runESLint :: "env \<Rightarrow> jsstring list \<Rightarrow> ESLintResult list io" where
  "runESLint E filePaths = for_of filePaths (lint_file E) []"

text \<open>\<^verbatim>\<open>getAISuggestions\<close>: one completion call and the filter on its answer.\<close>

definition getAISuggestions ::
  "env \<Rightarrow> jsstring \<Rightarrow> jsstring \<Rightarrow> jsstring option \<Rightarrow> jsstring option io" where
  "getAISuggestions E fileName fileContent patch' =
     try_catch
       (let prompt = review_prompt E fileName fileContent patch' in
        io_bind (io_call (ChatCompletionsCreate prompt) (\<lambda>t. chatCompletionsCreate E t prompt))
          (\<lambda>response.
             let suggestion =
               (case index (choices response) 0 of
                  None \<Rightarrow> None
                | Some choice \<Rightarrow>
                    (case choice_message choice of
                       None \<Rightarrow> None
                     | Some m \<Rightarrow> (case content m of None \<Rightarrow> None | Some c \<Rightarrow> Some (trim c))))
             in (case suggestion of
                   None \<Rightarrow> io_return None
                 | Some s \<Rightarrow>
                     if s \<noteq> [] \<and> \<not> str_includes (toLowerCase s) (js ''looks good'') \<and> length s > 50
                     then io_return (Some (ai_review_marker @ s))
                     else io_return None)))
       (\<lambda>err. io_bind (console (OpenAIError err)) (\<lambda>_. io_return None))"

text \<open>
  \<^verbatim>\<open>generateAIReview\<close>: first the loop over the analyzer's results (\<open>lint_phase\<close>), then
  the loop over the changed files (\<open>ai_file\<close> is its body); both push to
  \<^verbatim>\<open>reviewComments\<close>. \<open>lint_comment\<close> is the comment pushed for a finding and
  \<open>start_line\<close> the line computed from the patch.
\<close>

definition lint_comment :: "ESLintResult \<Rightarrow> LintMessage \<Rightarrow> ReviewComment" where
  "lint_comment result m =
     \<lparr>path = filePath result,
      line = LintMessage.line m,
      body = eslint_error_prefix @ message m @
             (if truthy_string (ruleId m)
              then js '' ('' @ (case ruleId m of Some r \<Rightarrow> r | None \<Rightarrow> []) @ js '')''
              else [])\<rparr>"

definition start_line :: "jsstring option \<Rightarrow> number" where
  "start_line patch' =
     (let lineMatch = (case patch' of None \<Rightarrow> None | Some p \<Rightarrow> hunk_match p)
      in case lineMatch of Some g \<Rightarrow> parseInt g | None \<Rightarrow> Num 1)"

definition lint_phase :: "ESLintResult list \<Rightarrow> ReviewComment list \<Rightarrow> ReviewComment list io" where
  "lint_phase eslintResults =
     for_of eslintResults
       (\<lambda>result.
          for_of (messages result)
            (\<lambda>m reviewComments.
               if severity m = Num 2 then io_return (reviewComments @ [lint_comment result m])
               else io_return reviewComments))"

definition ai_file :: "env \<Rightarrow> ChangedFile \<Rightarrow> ReviewComment list \<Rightarrow> ReviewComment list io" where
  "ai_file E file reviewComments =
     (if \<not> is_code_file (filename file) then io_return reviewComments
      else
        try_catch
          (io_bind (io_call (ReadFileSync (filename file)) (\<lambda>t. readFileSync E t (filename file)))
             (\<lambda>fileContent.
                io_bind (getAISuggestions E (filename file) fileContent (patch file))
                  (\<lambda>aiSuggestions.
                     case aiSuggestions of
                       None \<Rightarrow> io_return reviewComments
                     | Some s \<Rightarrow>
                         if s \<noteq> [] then
                           io_return
                             (reviewComments @
                              [\<lparr>path = filename file, line = start_line (patch file), body = s\<rparr>])
                         else io_return reviewComments)))
          (\<lambda>err.
             io_bind (console (AIReviewFailed (filename file) err))
               (\<lambda>_. io_return reviewComments)))"

definition generateAIReview ::
  "env \<Rightarrow> ChangedFile list \<Rightarrow> ESLintResult list \<Rightarrow> ReviewComment list io" where
  "generateAIReview E changedFiles eslintResults =
     io_bind (lint_phase eslintResults []) (for_of changedFiles (ai_file E))"

text \<open>
  \<^verbatim>\<open>postReviewComments\<close>: the publisher. \<open>post_individually\<close> is the body of the
  loop of its fallback.
\<close>

definition post_individually ::
  "env \<Rightarrow> jsstring \<Rightarrow> jsstring \<Rightarrow> number \<Rightarrow> ReviewComment \<Rightarrow> unit \<Rightarrow> unit io" where
  "post_individually E owner repo prNumber comment u =
     try_catch
       (io_call (CreateComment owner repo prNumber (fallback_body comment))
          (\<lambda>t. createComment E t owner repo prNumber (fallback_body comment)))
       (\<lambda>err. console (PostCommentFailed (path comment) err))"

definition postReviewComments ::
  "env \<Rightarrow> jsstring \<Rightarrow> jsstring \<Rightarrow> number \<Rightarrow> ReviewComment list \<Rightarrow> unit io" where
  "postReviewComments E owner repo prNumber comments =
     (if length comments = 0 then
        io_call (CreateComment owner repo prNumber no_issues_body)
          (\<lambda>t. createComment E t owner repo prNumber no_issues_body)
      else
        try_catch
          (let review_comments =
                 map (\<lambda>comment. \<lparr>path = path comment, line = line comment, body = body comment\<rparr>)
                   comments;
               b = review_body (length comments)
           in io_call (CreateReview owner repo prNumber (js ''COMMENT'') b review_comments)
                (\<lambda>t. createReview E t owner repo prNumber (js ''COMMENT'') b review_comments))
          (\<lambda>err.
             io_bind (console (CreateReviewFailed err))
               (\<lambda>_. for_of (take 10 comments) (post_individually E owner repo prNumber) ())))"

text \<open>
  \<^verbatim>\<open>reviewPullRequest\<close>: the run. \<open>is_reviewed\<close> is the predicate of its filter.
\<close>

definition is_reviewed :: "ChangedFile \<Rightarrow> bool" where
  "is_reviewed file = (is_code_file (filename file) \<and> status file \<noteq> js ''removed'')"

definition reviewPullRequest :: "env \<Rightarrow> unit io" where
  "reviewPullRequest E =
     (let owner = (case GITHUB_REPOSITORY E of None \<Rightarrow> None | Some r \<Rightarrow> index (split_slash r) 0);
          repo = (case GITHUB_REPOSITORY E of None \<Rightarrow> None | Some r \<Rightarrow> index (split_slash r) 1);
          prNumber =
            parseInt (case GITHUB_PR_NUMBER E of
                        None \<Rightarrow> js ''0''
                      | Some v \<Rightarrow> if v \<noteq> [] then v else js ''0'')
      in case (owner, repo) of
           (Some owner', Some repo') \<Rightarrow>
             if owner' = [] \<or> repo' = [] \<or> \<not> truthy_number prNumber then io_throw missing_context
             else
               io_bind (console (StartingReview prNumber owner' repo'))
                 (\<lambda>_. try_catch
                        (io_bind (getChangedFiles E owner' repo' prNumber)
                           (\<lambda>changedFiles.
                              io_bind (console (FoundChangedFiles (length changedFiles)))
                                (\<lambda>_. let codeFiles = filter is_reviewed changedFiles
                                     in if length codeFiles = 0 then console NoCodeFiles
                                        else
                                          io_bind (runESLint E (map filename codeFiles))
                                            (\<lambda>eslintResults.
                                               io_bind (generateAIReview E codeFiles eslintResults)
                                                 (\<lambda>reviewComments.
                                                    io_bind
                                                      (postReviewComments E owner' repo' prNumber
                                                         reviewComments)
                                                      (\<lambda>_. console
                                                             (ReviewCompleted
                                                                (length reviewComments))))))))
                        (\<lambda>err. io_bind (console (ErrorDuringReview err)) (\<lambda>_. io_throw err)))
         | _ \<Rightarrow> io_throw missing_context)"

section \<open>What the specification says, as functions\<close>

text \<open>
  Lint phase of the specification: for every finding with severity error, in the order of
  the analyzer's results and of the findings of each result, one comment anchored at the
  line of the finding, whose body says that it is a lint error and names the rule when the
  finding has one.
\<close>

definition lint_error_comments :: "ESLintResult list \<Rightarrow> ReviewComment list" where
  "lint_error_comments results =
     concat
       (map (\<lambda>r. map (\<lambda>m. \<lparr>path = filePath r,
                           line = LintMessage.line m,
                           body = js ''**ESLint Error**: '' @ message m @
                                  (case ruleId m of
                                     None \<Rightarrow> []
                                   | Some rule \<Rightarrow>
                                       if rule = [] then [] else js '' ('' @ rule @ js '')'')\<rparr>)
                     (filter (\<lambda>m. severity m = Num 2) (messages r)))
          results)"

text \<open>
  AI phase of the specification: the comment for a changed file and the suggestion the
  generator kept for it, anchored at the line found in the patch of the file.
\<close>

definition ai_comment :: "ChangedFile \<times> jsstring \<Rightarrow> ReviewComment" where
  "ai_comment fs =
     \<lparr>path = filename (fst fs),
      line = start_line (patch (fst fs)),
      body = ai_review_marker @ snd fs\<rparr>"

text \<open>The text of a response of the completion service, absent when it has none.\<close>

definition response_text :: "ChatCompletion \<Rightarrow> jsstring option" where
  "response_text response =
     (case choices response of
        [] \<Rightarrow> None
      | choice # _ \<Rightarrow> (case choice_message choice of None \<Rightarrow> None | Some m \<Rightarrow> content m))"

text \<open>The value of a string of decimal digits.\<close>

definition decimal_value :: "jsstring \<Rightarrow> int" where
  "decimal_value ds = foldl (\<lambda>n d. 10 * n + (int d - 48)) 0 ds"

text \<open>The events of a kind: posts of a general comment, batched reviews, reads of the disk.\<close>

fun is_issue_post :: "event \<Rightarrow> bool" where
  "is_issue_post (CreateComment owner repo n b) = True"
| "is_issue_post e = False"

fun is_batched_review :: "event \<Rightarrow> bool" where
  "is_batched_review (CreateReview owner repo n ev b cs) = True"
| "is_batched_review e = False"

fun is_exists_check :: "event \<Rightarrow> bool" where
  "is_exists_check (ExistsSync p) = True"
| "is_exists_check e = False"

fun is_file_read :: "event \<Rightarrow> bool" where
  "is_file_read (ReadFileSync p) = True"
| "is_file_read e = False"

text \<open>
  The context of a run that passes the check at the start of \<^verbatim>\<open>reviewPullRequest\<close>:
  the repository variable splits at \<^verbatim>\<open>/\<close> into a non-empty owner and a non-empty
  repository name, and the PR number variable parses to an integer \<open>n\<close> other than zero.
\<close>

definition pr_context :: "env \<Rightarrow> jsstring \<Rightarrow> jsstring \<Rightarrow> int \<Rightarrow> bool" where
  "pr_context E owner repo n =
     (case GITHUB_REPOSITORY E of
        None \<Rightarrow> False
      | Some r \<Rightarrow>
          index (split_slash r) 0 = Some owner \<and> index (split_slash r) 1 = Some repo \<and>
          owner \<noteq> [] \<and> repo \<noteq> [] \<and>
          (case GITHUB_PR_NUMBER E of None \<Rightarrow> False | Some v \<Rightarrow> parseInt v = Num n \<and> n \<noteq> 0))"

section \<open>Example inputs\<close>

text \<open>
  One changed file with one hunk, a completion that has one choice, a text of 80 characters
  without the phrase \<^verbatim>\<open>looks good\<close>, and an environment where every collaborator succeeds:
  the analyzer finds nothing and the completion service answers \<^verbatim>\<open>Looks good!\<close>. The
  other environments change single collaborators of it.
\<close>

definition file_a :: ChangedFile where
  "file_a = \<lparr>filename = js ''src/a.ts'', status = js ''modified'',
              patch = Some (js ''@@ -10,5 +20,6 @@ export'')\<rparr>"

definition completion_of :: "jsstring \<Rightarrow> ChatCompletion" where
  "completion_of c = \<lparr>choices = [\<lparr>choice_message = Some \<lparr>content = Some c\<rparr>\<rparr>]\<rparr>"

definition long_answer :: jsstring where
  "long_answer =
     js ''Consider renaming x to a descriptive name; add an explicit type annotation here.''"

definition semi_finding :: LintMessage where
  "semi_finding =
     \<lparr>ruleId = Some (js ''semi''), severity = Num 2, message = js ''Missing semicolon.'',
      LintMessage.line = Num 3, column = Num 14\<rparr>"

definition numbered_comment :: "int \<Rightarrow> ReviewComment" where
  "numbered_comment k = \<lparr>path = js ''src/a.ts'', line = Num k, body = js ''finding''\<rparr>"

definition fifteen_comments :: "ReviewComment list" where
  "fifteen_comments = map numbered_comment [1, 2, 3, 4, 5, 6, 7, 8, 9, 10, 11, 12, 13, 14, 15]"

definition quiet_env :: env where
  "quiet_env =
     \<lparr>GITHUB_REPOSITORY = Some (js ''octo/demo''),
      GITHUB_PR_NUMBER = Some (js ''7''),
      extname = (\<lambda>name. js ''.ts''),
      listFiles = (\<lambda>t owner repo n. Inr [file_a]),
      existsSync = (\<lambda>t p. True),
      lintFiles = (\<lambda>t ps. Inr []),
      readFileSync = (\<lambda>t p. Inr (js ''let x = 1'')),
      chatCompletionsCreate = (\<lambda>t prompt. Inr (completion_of (js ''Looks good!''))),
      createReview = (\<lambda>t owner repo n ev b cs. Inr ()),
      createComment = (\<lambda>t owner repo n b. Inr ())\<rparr>"

definition talkative_env :: env where
  "talkative_env = quiet_env\<lparr>chatCompletionsCreate := (\<lambda>t prompt. Inr (completion_of long_answer))\<rparr>"

text \<open>The batched review is refused, and so is the individual post of the third comment.\<close>

definition rejecting_env :: env where
  "rejecting_env =
     quiet_env
       \<lparr>createReview := (\<lambda>t owner repo n ev b cs. Inl (Error (js ''Unprocessable Entity''))),
        createComment :=
          (\<lambda>t owner repo n b.
             if b = fallback_body (numbered_comment 3) then Inl (Error (js ''Forbidden''))
             else Inr ())\<rparr>"

text \<open>The pull request touches a document and removes a source file.\<close>

definition docs_only_env :: env where
  "docs_only_env =
     quiet_env
       \<lparr>listFiles :=
          (\<lambda>t owner repo n.
             Inr [\<lparr>filename = js ''README.md'', status = js ''modified'', patch = None\<rparr>,
                  \<lparr>filename = js ''src/old.ts'', status = js ''removed'', patch = None\<rparr>])\<rparr>"



text \<open>
  The analyzer answers as ESLint does: the \<^verbatim>\<open>filePath\<close> of a result is the absolute path
  of the file that was linted.
\<close>

definition absolute_path_env :: env where
  "absolute_path_env =
     quiet_env
       \<lparr>lintFiles :=
          (\<lambda>t ps. Inr [\<lparr>filePath = js ''/home/runner/work/demo/demo/src/a.ts'',
                         messages = [semi_finding]\<rparr>])\<rparr>"

text \<open>The PR number variable holds \<^verbatim>\<open>-1\<close>.\<close>

definition negative_number_env :: env where
  "negative_number_env = quiet_env\<lparr>GITHUB_PR_NUMBER := Some (js ''-1'')\<rparr>"

section \<open>Strings, numbers and the two regular expressions\<close>

lemma js_length [simp]: "length (js s) = length s" by (simp add: js_def)

text \<open>Below \<open>2^53\<close> every integer is a double.\<close>

lemma to_number_small:
  assumes "\<bar>i\<bar> < 2 ^ 53"
  shows "to_number i = Num i"
proof -
  have small: "nat \<bar>i\<bar> < 2 ^ 53"
    using assms by (simp add: nat_less_iff)
  then have r: "round_to_double (nat \<bar>i\<bar>) = nat \<bar>i\<bar>"
    by (simp add: round_to_double_def)
  have "(2::nat) ^ 53 \<le> 2 ^ 1024"
    by (rule power_increasing) simp_all
  then have "\<not> 2 ^ 1024 \<le> nat \<bar>i\<bar>"
    using small by linarith
  then show ?thesis
    by (simp add: to_number_def r Let_def)
qed

lemma is_digit_radix: "is_digit c \<Longrightarrow> is_radix_digit 10 c"
  by (auto simp add: is_digit_def is_radix_digit_def digit_value_def)

lemma is_digit_not_space: "is_digit c \<Longrightarrow> \<not> is_white_space c"
  by (auto simp add: is_digit_def is_white_space_def)

lemma radix_value_decimal_aux:
  "list_all is_digit ds \<Longrightarrow>
   int (foldl (\<lambda>acc c. acc * 10 + (case digit_value c of None \<Rightarrow> 0 | Some v \<Rightarrow> v)) n ds) =
   foldl (\<lambda>n d. 10 * n + (int d - 48)) (int n) ds"
proof (induction ds arbitrary: n)
  case Nil
  show ?case by simp
next
  case (Cons d ds)
  then have d: "48 \<le> d" "d \<le> 57" by (simp_all add: is_digit_def)
  have "int (n * 10 + (case digit_value d of None \<Rightarrow> 0 | Some v \<Rightarrow> v)) = 10 * int n + (int d - 48)"
    using d by (simp add: digit_value_def)
  then show ?case using Cons by (simp del: of_nat_add of_nat_mult)
qed

lemma parseInt_digits:
  assumes "ds \<noteq> []" "list_all is_digit ds"
  shows "parseInt ds = to_number (decimal_value ds)"
proof -
  obtain d rest where ds: "ds = d # rest" using assms(1) by (cases ds) auto
  have d: "is_digit d" using assms(2) ds by simp
  have ws: "dropWhile is_white_space ds = ds" using ds d by (simp add: is_digit_not_space)
  have sign: "d \<noteq> 45" "d \<noteq> 43" using d by (auto simp add: is_digit_def)
  have nohex: "\<not> (case ds of a # b # _ \<Rightarrow> a = 48 \<and> (b = 120 \<or> b = 88) | _ \<Rightarrow> False)"
    using assms(2) ds by (auto simp add: is_digit_def split: list.splits)
  have tw: "takeWhile (is_radix_digit 10) ds = ds"
    using assms(2) by (simp add: takeWhile_eq_all_conv list_all_iff is_digit_radix)
  have "parseInt ds = to_number (int (radix_value 10 ds))"
    unfolding parseInt_def Let_def ws using sign nohex tw assms(1) by (simp add: ds)
  then show ?thesis
    using radix_value_decimal_aux [OF assms(2), of 0] by (simp add: radix_value_def decimal_value_def)
qed

lemma decimal_value_radix:
  assumes "list_all is_digit ds"
  shows "decimal_value ds = int (radix_value 10 ds)"
  using radix_value_decimal_aux [OF assms, of 0] by (simp add: radix_value_def decimal_value_def)

lemma parseInt_digits_small:
  assumes "ds \<noteq> []" "list_all is_digit ds" "decimal_value ds < 2 ^ 53"
  shows "parseInt ds = Num (decimal_value ds)"
proof -
  have "0 \<le> decimal_value ds"
    by (simp add: decimal_value_radix [OF assms(2)])
  then have "\<bar>decimal_value ds\<bar> < 2 ^ 53"
    using assms(3) by simp
  then show ?thesis
    by (simp add: parseInt_digits [OF assms(1,2)] to_number_small)
qed

lemma parseInt_empty: "parseInt [] = NaN"
  by (simp add: parseInt_def)

lemma parseInt_zero: "parseInt (js ''0'') = Num 0"
  by (simp add: parseInt_def js_def is_white_space_def is_radix_digit_def digit_value_def
      radix_value_def to_number_small)

lemma parseInt_minus_one: "parseInt (js ''-1'') = Num (- 1)"
  by (simp add: parseInt_def js_def is_white_space_def is_radix_digit_def digit_value_def
      radix_value_def to_number_small)

lemma parseInt_seven: "parseInt (js ''7'') = Num 7"
  by (simp add: parseInt_def js_def is_white_space_def is_radix_digit_def digit_value_def
      radix_value_def to_number_small)

text \<open>The leftmost match of the hunk header.\<close>

lemma hunk_match_at_header:
  assumes "a \<noteq> []" "list_all is_digit a" "list_all is_digit b" "c \<noteq> []" "list_all is_digit c"
    and "rest = [] \<or> \<not> is_digit (hd rest)"
  shows "hunk_match_at (js ''@@ -'' @ a @ js '','' @ b @ js '' +'' @ c @ rest) = Some c"
proof -
  have nd: "\<not> is_digit 44" "\<not> is_digit 32" by (simp_all add: is_digit_def)
  have a: "\<And>x. x \<in> set a \<Longrightarrow> is_digit x" and b: "\<And>x. x \<in> set b \<Longrightarrow> is_digit x"
    and c: "\<And>x. x \<in> set c \<Longrightarrow> is_digit x"
    using assms by (simp_all add: list_all_iff)
  have t1: "takeWhile is_digit (a @ 44 # b @ 32 # 43 # c @ rest) = a"
    using a nd by (simp add: takeWhile_append2)
  have d1: "dropWhile is_digit (a @ 44 # b @ 32 # 43 # c @ rest) = 44 # b @ 32 # 43 # c @ rest"
    using a nd by (simp add: dropWhile_append2)
  have d2: "dropWhile is_digit (b @ 32 # 43 # c @ rest) = 32 # 43 # c @ rest"
    using b nd by (simp add: dropWhile_append2)
  have t2: "takeWhile is_digit (c @ rest) = c"
    using c assms(6) by (cases rest) (simp_all add: takeWhile_append2)
  show ?thesis
    using assms(1,4) by (simp add: hunk_match_at_def js_def Let_def t1 d1 d2 t2)
qed

lemma hunk_match_first:
  assumes "\<forall>i<length pre. hunk_match_at (drop i (pre @ s)) = None" "hunk_match_at s = Some g"
  shows "hunk_match (pre @ s) = Some g"
  using assms
proof (induction pre)
  case Nil
  then have "s \<noteq> []" by (auto simp add: hunk_match_at_def js_def)
  then obtain x xs where "s = x # xs" by (cases s) auto
  with Nil show ?case by simp
next
  case (Cons x pre)
  have "hunk_match_at (x # pre @ s) = None" using Cons.prems(1) by force
  moreover have "\<forall>i<length pre. hunk_match_at (drop i (pre @ s)) = None"
  proof (intro allI impI)
    fix i assume "i < length pre"
    then have "hunk_match_at (drop (Suc i) ((x # pre) @ s)) = None"
      using Cons.prems(1) by (metis Suc_less_eq length_Cons)
    then show "hunk_match_at (drop i (pre @ s)) = None" by simp
  qed
  ultimately show ?case using Cons.IH Cons.prems(2) by simp
qed


lemma hunk_match_at_no_at: "s = [] \<or> hd s \<noteq> 64 \<Longrightarrow> hunk_match_at s = None"
  by (cases s) (auto simp add: hunk_match_at_def js_def)

lemma no_at_no_match:
  assumes "64 \<notin> set pre" "i < length pre"
  shows "hunk_match_at (drop i (pre @ s)) = None"
proof -
  have "drop i (pre @ s) = pre ! i # drop (Suc i) (pre @ s)"
    using assms(2) by (simp add: Cons_nth_drop_Suc [symmetric] nth_append)
  moreover have "pre ! i \<noteq> 64" using assms by (metis nth_mem)
  ultimately show ?thesis by (simp add: hunk_match_at_no_at)
qed

lemma start_line_header:
  assumes "a \<noteq> []" "list_all is_digit a" "list_all is_digit b" "c \<noteq> []" "list_all is_digit c"
    and "rest = [] \<or> \<not> is_digit (hd rest)"
    and "\<forall>i<length pre.
           hunk_match_at (drop i (pre @ js ''@@ -'' @ a @ js '','' @ b @ js '' +'' @ c @ rest)) = None"
  shows "start_line (Some (pre @ js ''@@ -'' @ a @ js '','' @ b @ js '' +'' @ c @ rest)) =
           to_number (decimal_value c) \<and>
         (decimal_value c < 2 ^ 53 \<longrightarrow>
            start_line (Some (pre @ js ''@@ -'' @ a @ js '','' @ b @ js '' +'' @ c @ rest)) =
              Num (decimal_value c))"
proof -
  have "hunk_match (pre @ (js ''@@ -'' @ a @ js '','' @ b @ js '' +'' @ c @ rest)) = Some c"
    using assms(7) hunk_match_at_header [OF assms(1-6)] by (rule hunk_match_first)
  then have "start_line (Some (pre @ js ''@@ -'' @ a @ js '','' @ b @ js '' +'' @ c @ rest)) =
             parseInt c"
    by (simp add: start_line_def)
  then show ?thesis
    using parseInt_digits [OF assms(4,5)] parseInt_digits_small [OF assms(4,5)] by simp
qed

lemma start_line_example:
  assumes "64 \<notin> set pre"
  shows "start_line (Some (pre @ js ''@@ -10,5 +20,6 @@'' @ rest)) = Num 20"
proof -
  have d: "js ''10'' \<noteq> []" "list_all is_digit (js ''10'')" "list_all is_digit (js ''5'')"
    "js ''20'' \<noteq> []" "list_all is_digit (js ''20'')"
    "js '',6 @@'' @ rest = [] \<or> \<not> is_digit (hd (js '',6 @@'' @ rest))"
    by (simp_all add: js_def is_digit_def)
  have e: "js ''@@ -10,5 +20,6 @@'' @ rest =
           js ''@@ -'' @ js ''10'' @ js '','' @ js ''5'' @ js '' +'' @ js ''20'' @ (js '',6 @@'' @ rest)"
    by (simp add: js_def)
  have n: "\<forall>i<length pre.
           hunk_match_at (drop i (pre @ js ''@@ -'' @ js ''10'' @ js '','' @ js ''5'' @ js '' +'' @
                                  js ''20'' @ (js '',6 @@'' @ rest))) = None"
    using assms by (blast intro: no_at_no_match)
  have "decimal_value (js ''20'') = 20"
    by (simp add: decimal_value_def js_def)
  then have "to_number (decimal_value (js ''20'')) = Num 20"
    by (simp add: to_number_small)
  then show ?thesis
    using start_line_header [OF d n] by (simp only: e)
qed

text \<open>
  \<open>str_includes\<close> is the sublist relation; trimming and lower-casing do not change whether
  a string contains \<^verbatim>\<open>looks good\<close>, since the phrase neither starts nor ends with the
  lower case of a white space character.
\<close>

lemma take_prefix_iff: "take (length p) s = p \<longleftrightarrow> prefix p s"
  by (metis append_eq_conv_conj prefix_def)

lemma str_includes_sublist: "str_includes s p \<longleftrightarrow> sublist p s"
  by (induction s) (simp_all add: take_prefix_iff sublist_Cons_right)

lemma sublist_skip_front:
  assumes "sublist p (a @ xs)" "p \<noteq> []" "hd p \<notin> set a"
  shows "sublist p xs"
  using assms
proof (induction a)
  case Nil
  then show ?case by simp
next
  case (Cons x a)
  have "\<not> prefix p (x # a @ xs)"
    using Cons.prems(2,3) by (cases p) auto
  then have "sublist p (a @ xs)" using Cons.prems(1) by (simp add: sublist_Cons_right)
  then show ?case using Cons by simp
qed

lemma sublist_skip_back:
  assumes "sublist p (xs @ b)" "p \<noteq> []" "last p \<notin> set b"
  shows "sublist p xs"
proof -
  have "sublist (rev p) (rev b @ rev xs)" using assms(1) by (metis rev_append sublist_rev)
  moreover have "hd (rev p) \<notin> set (rev b)" using assms(2,3) by (simp add: hd_rev)
  ultimately have "sublist (rev p) (rev xs)" using assms(2) sublist_skip_front by (metis rev_is_Nil_conv)
  then show ?thesis by simp
qed

lemma trim_decompose:
  "\<exists>a b. s = a @ trim s @ b \<and> list_all is_white_space a \<and> list_all is_white_space b"
proof -
  let ?m = "dropWhile is_white_space s"
  have 1: "s = takeWhile is_white_space s @ ?m" by simp
  have "rev ?m = takeWhile is_white_space (rev ?m) @ dropWhile is_white_space (rev ?m)" by simp
  then have "?m = rev (dropWhile is_white_space (rev ?m)) @ rev (takeWhile is_white_space (rev ?m))"
    by (metis rev_append rev_rev_ident)
  then have 2: "?m = trim s @ rev (takeWhile is_white_space (rev ?m))" by (simp add: trim_def)
  have 3: "list_all is_white_space (takeWhile is_white_space s)"
    by (simp add: list_all_iff) (meson set_takeWhileD)
  have 4: "list_all is_white_space (rev (takeWhile is_white_space (rev ?m)))"
    by (simp add: list_all_iff) (meson set_takeWhileD)
  show ?thesis using 1 2 3 4 by metis
qed

lemma lower_unit_inv: "lower_unit c = 108 \<or> lower_unit c = 100 \<Longrightarrow> c = 76 \<or> c = 108 \<or> c = 68 \<or> c = 100"
  unfolding lower_unit_def by (cases "65 \<le> c \<and> c \<le> 90"; cases "c = 8490") auto

lemma lower_unit_space: "is_white_space c \<Longrightarrow> lower_unit c \<noteq> 108 \<and> lower_unit c \<noteq> 100"
proof -
  assume w: "is_white_space c"
  have "\<not> is_white_space 76" "\<not> is_white_space 108" "\<not> is_white_space 68" "\<not> is_white_space 100"
    by (simp_all add: is_white_space_def)
  then show ?thesis using w lower_unit_inv [of c] by metis
qed

lemma includes_trim_general:
  assumes p: "p \<noteq> []"
    and ws: "\<And>c. is_white_space c \<Longrightarrow> lower_unit c \<noteq> hd p \<and> lower_unit c \<noteq> last p"
  shows "sublist p (toLowerCase (trim c)) \<longleftrightarrow> sublist p (toLowerCase c)"
proof -
  obtain a b where c: "c = a @ trim c @ b" and a: "list_all is_white_space a" and b: "list_all is_white_space b"
    using trim_decompose by blast
  have la: "hd p \<notin> set (map lower_unit a)"
  proof
    assume "hd p \<in> set (map lower_unit a)"
    then obtain x where "x \<in> set a" "hd p = lower_unit x" by auto
    then show False using a ws [of x] by (simp add: list_all_iff)
  qed
  have lb: "last p \<notin> set (map lower_unit b)"
  proof
    assume "last p \<in> set (map lower_unit b)"
    then obtain x where "x \<in> set b" "last p = lower_unit x" by auto
    then show False using b ws [of x] by (simp add: list_all_iff)
  qed
  have "toLowerCase c = toLowerCase (a @ trim c @ b)" using c by simp
  then have eq: "toLowerCase c = map lower_unit a @ toLowerCase (trim c) @ map lower_unit b"
    by (simp add: toLowerCase_def)
  show ?thesis
  proof
    assume "sublist p (toLowerCase c)"
    then have "sublist p (map lower_unit a @ (toLowerCase (trim c) @ map lower_unit b))"
      using eq by simp
    then have "sublist p (toLowerCase (trim c) @ map lower_unit b)"
      using p la by (rule sublist_skip_front)
    then show "sublist p (toLowerCase (trim c))"
      using p lb by (rule sublist_skip_back)
  next
    assume "sublist p (toLowerCase (trim c))"
    then have "sublist p (map lower_unit a @ toLowerCase (trim c) @ map lower_unit b)"
      by (simp add: sublist_append)
    then show "sublist p (toLowerCase c)" using eq by simp
  qed
qed

lemma looks_good_trim:
  "str_includes (toLowerCase (trim c)) (js ''looks good'') = str_includes (toLowerCase c) (js ''looks good'')"
proof -
  have "js ''looks good'' \<noteq> []" "hd (js ''looks good'') = 108" "last (js ''looks good'') = 100"
    by (simp_all add: js_def)
  then show ?thesis
    using includes_trim_general [of "js ''looks good''" c] lower_unit_space
    by (simp add: str_includes_sublist)
qed

text \<open>The test of the extension is a test of the suffix.\<close>

lemma ends_with_suffix: "ends_with s x \<longleftrightarrow> suffix x s"
proof
  assume "ends_with s x"
  then have "s = take (length s - length x) s @ x"
    by (metis append_take_drop_id ends_with_def)
  then show "suffix x s" by (metis suffixI)
next
  assume "suffix x s"
  then obtain ys where "s = ys @ x" by (auto simp add: suffix_def)
  then show "ends_with s x" by (simp add: ends_with_def)
qed

lemma is_code_file_suffix:
  "is_code_file name \<longleftrightarrow> (\<exists>x \<in> set [js ''.ts'', js ''.js'', js ''.tsx'', js ''.jsx'']. suffix x name)"
  by (simp add: is_code_file_def code_extensions_def ends_with_suffix)

section \<open>Properties of the loops\<close>

lemma lint_comment_eq:
  "lint_comment r m =
     \<lparr>path = filePath r,
      line = LintMessage.line m,
      body = js ''**ESLint Error**: '' @ message m @
             (case ruleId m of
                None \<Rightarrow> []
              | Some rule \<Rightarrow> if rule = [] then [] else js '' ('' @ rule @ js '')'')\<rparr>"
  by (simp add: lint_comment_def eslint_error_prefix_def truthy_string_def split: option.splits)

lemma lint_inner:
  "for_of ms (\<lambda>m reviewComments.
               if severity m = Num 2 then io_return (reviewComments @ [lint_comment r m])
               else io_return reviewComments) acc t =
   (Inr (acc @ map (lint_comment r) (filter (\<lambda>m. severity m = Num 2) ms)), t)"
  by (induction ms arbitrary: acc) (simp_all add: io_bind_def io_return_def)

lemma lint_phase_eq: "lint_phase results acc t = (Inr (acc @ lint_error_comments results), t)"
proof (induction results arbitrary: acc)
  case Nil
  show ?case by (simp add: lint_phase_def lint_error_comments_def io_return_def)
next
  case (Cons r rs)
  have "lint_phase (r # rs) acc t =
        lint_phase rs (acc @ map (lint_comment r) (filter (\<lambda>m. severity m = Num 2) (messages r))) t"
    by (simp add: lint_phase_def io_bind_def lint_inner)
  also have "\<dots> = (Inr (acc @ lint_error_comments (r # rs)), t)"
    by (simp add: Cons.IH lint_error_comments_def lint_comment_eq)
  finally show ?case .
qed

lemma getAISuggestions_answer:
  assumes "chatCompletionsCreate E t (review_prompt E fileName fileContent p) = Inr response"
  shows "getAISuggestions E fileName fileContent p t =
         (Inr (case response_text response of
                 None \<Rightarrow> None
               | Some c \<Rightarrow>
                   if 50 < length (trim c) \<and> \<not> str_includes (toLowerCase (trim c)) (js ''looks good'')
                   then Some (ai_review_marker @ trim c) else None),
          t @ [ChatCompletionsCreate (review_prompt E fileName fileContent p)])"
  using assms
  by (auto simp add: getAISuggestions_def try_catch_def io_bind_def io_call_def io_return_def Let_def
      response_text_def index_def split: option.splits list.splits)

lemma getAISuggestions_failure:
  assumes "chatCompletionsCreate E t (review_prompt E fileName fileContent p) = Inl err"
  shows "getAISuggestions E fileName fileContent p t =
         (Inr None,
          t @ [ChatCompletionsCreate (review_prompt E fileName fileContent p),
               Console (OpenAIError err)])"
  using assms
  by (simp add: getAISuggestions_def try_catch_def io_bind_def io_call_def io_return_def Let_def
      console_def)

lemma getAISuggestions_total:
  "\<exists>t'. getAISuggestions E fileName fileContent p t = (Inr None, t') \<or>
        (\<exists>s. s \<noteq> [] \<and>
             getAISuggestions E fileName fileContent p t = (Inr (Some (ai_review_marker @ s)), t'))"
proof (cases "chatCompletionsCreate E t (review_prompt E fileName fileContent p)")
  case (Inl err)
  then show ?thesis by (simp add: getAISuggestions_failure)
next
  case (Inr response)
  then show ?thesis by (auto simp add: getAISuggestions_answer split: option.splits)
qed

lemma ai_file_cases:
  "\<exists>t'. ai_file E f acc t = (Inr acc, t') \<or>
        (\<exists>s. is_code_file (filename f) \<and>
             ai_file E f acc t = (Inr (acc @ [ai_comment (f, s)]), t'))"
proof (cases "is_code_file (filename f)")
  case False
  then show ?thesis by (simp add: ai_file_def io_return_def)
next
  case True
  show ?thesis
  proof (cases "readFileSync E t (filename f)")
    case (Inl err)
    with True show ?thesis
      by (simp add: ai_file_def try_catch_def io_bind_def io_call_def console_def io_return_def)
  next
    case (Inr fileContent)
    obtain t' where
      "getAISuggestions E (filename f) fileContent (patch f) (t @ [ReadFileSync (filename f)]) =
         (Inr None, t') \<or>
       (\<exists>s. s \<noteq> [] \<and>
            getAISuggestions E (filename f) fileContent (patch f) (t @ [ReadFileSync (filename f)]) =
              (Inr (Some (ai_review_marker @ s)), t'))"
      using getAISuggestions_total by blast
    with True Inr show ?thesis
      by (auto simp add: ai_file_def try_catch_def io_bind_def io_call_def io_return_def
          ai_comment_def)
  qed
qed

lemma ai_loop:
  "\<exists>fs t'. for_of files (ai_file E) acc t = (Inr (acc @ map ai_comment fs), t') \<and>
        subseq (map fst fs) files \<and> list_all (\<lambda>p. is_code_file (filename (fst p))) fs"
proof (induction files arbitrary: acc t)
  case Nil
  show ?case by (rule exI [of _ "[]"]) (simp add: io_return_def)
next
  case (Cons f files)
  obtain t1 where step:
    "ai_file E f acc t = (Inr acc, t1) \<or>
     (\<exists>s. is_code_file (filename f) \<and> ai_file E f acc t = (Inr (acc @ [ai_comment (f, s)]), t1))"
    using ai_file_cases by blast
  then show ?case
  proof
    assume a: "ai_file E f acc t = (Inr acc, t1)"
    obtain fs t' where "for_of files (ai_file E) acc t1 = (Inr (acc @ map ai_comment fs), t')"
      "subseq (map fst fs) files" "list_all (\<lambda>p. is_code_file (filename (fst p))) fs"
      using Cons.IH by blast
    with a show ?thesis
      by (intro exI [of _ fs] exI [of _ t']) (simp add: io_bind_def list_emb_Cons)
  next
    assume "\<exists>s. is_code_file (filename f) \<and>
                ai_file E f acc t = (Inr (acc @ [ai_comment (f, s)]), t1)"
    then obtain s where a: "is_code_file (filename f)"
      "ai_file E f acc t = (Inr (acc @ [ai_comment (f, s)]), t1)"
      by blast
    obtain fs t' where
      "for_of files (ai_file E) (acc @ [ai_comment (f, s)]) t1 =
         (Inr ((acc @ [ai_comment (f, s)]) @ map ai_comment fs), t')"
      "subseq (map fst fs) files" "list_all (\<lambda>p. is_code_file (filename (fst p))) fs"
      using Cons.IH by blast
    with a show ?thesis
      by (intro exI [of _ "(f, s) # fs"] exI [of _ t']) (simp add: io_bind_def)
  qed
qed

lemma generateAIReview_shape:
  "\<exists>fs t'. generateAIReview E changedFiles eslintResults t =
            (Inr (lint_error_comments eslintResults @ map ai_comment fs), t') \<and>
        subseq (map fst fs) changedFiles \<and> list_all (\<lambda>p. is_code_file (filename (fst p))) fs"
  using ai_loop [of changedFiles E "lint_error_comments eslintResults" t]
  by (simp add: generateAIReview_def io_bind_def lint_phase_eq)

lemma lint_error_comments_prefix:
  "list_all (\<lambda>c. prefix eslint_error_prefix (body c)) (lint_error_comments results)"
  by (auto simp add: lint_error_comments_def eslint_error_prefix_def list_all_iff)

lemma ai_comment_no_lint_prefix: "\<not> prefix eslint_error_prefix (body (ai_comment fs))"
  by (simp add: ai_comment_def ai_review_marker_def eslint_error_prefix_def js_def prefix_def)

lemma ai_comment_paths:
  assumes "subseq (map fst fs) changedFiles"
  shows "set (map path (map ai_comment fs)) \<subseteq> set (map filename changedFiles)"
proof
  fix p assume "p \<in> set (map path (map ai_comment fs))"
  then obtain x where x: "x \<in> set fs" "p = filename (fst x)"
    by (auto simp add: ai_comment_def)
  then have m: "fst x \<in> set (map fst fs)" by simp
  from assms m obtain y where "y \<in> set changedFiles" "fst x = y"
    by (rule list_emb_set)
  then have "fst x \<in> set changedFiles" by simp
  then show "p \<in> set (map filename changedFiles)" using x(2) by auto
qed

lemma lint_comment_paths:
  "set (map path (lint_error_comments results)) \<subseteq> set (map filePath results)"
  by (auto simp add: lint_error_comments_def)

lemma generateAIReview_paths:
  "\<exists>cs t'. generateAIReview E changedFiles eslintResults t = (Inr cs, t') \<and>
        set (map path cs) \<subseteq> set (map filePath eslintResults) \<union> set (map filename changedFiles)"
proof -
  obtain fs t' where g: "generateAIReview E changedFiles eslintResults t =
            (Inr (lint_error_comments eslintResults @ map ai_comment fs), t')"
    and s: "subseq (map fst fs) changedFiles"
    using generateAIReview_shape [of E changedFiles eslintResults t] by blast
  have "set (map path (lint_error_comments eslintResults @ map ai_comment fs)) \<subseteq>
        set (map filePath eslintResults) \<union> set (map filename changedFiles)"
    using ai_comment_paths [OF s] lint_comment_paths [of eslintResults]
    by (simp only: map_append set_append) blast
  then show ?thesis using g by blast
qed

lemma ai_file_answer:
  assumes "is_code_file (filename file)"
    and "readFileSync E t (filename file) = Inr fileContent"
    and "chatCompletionsCreate E (t @ [ReadFileSync (filename file)])
           (review_prompt E (filename file) fileContent (patch file)) = Inr response"
  shows "ai_file E file acc t =
         (Inr (acc @ (case response_text response of
                        None \<Rightarrow> []
                      | Some c \<Rightarrow>
                          if length (trim c) \<le> 50 \<or> str_includes (toLowerCase c) (js ''looks good'')
                          then []
                          else [\<lparr>path = filename file, line = start_line (patch file),
                                 body = ai_review_marker @ trim c\<rparr>])),
          t @ [ReadFileSync (filename file),
               ChatCompletionsCreate (review_prompt E (filename file) fileContent (patch file))])"
  using assms
  by (simp add: ai_file_def try_catch_def io_bind_def io_call_def io_return_def
      getAISuggestions_answer looks_good_trim ai_review_marker_def split: option.splits)


text \<open>Neither loop throws, and each visits every element: the trace shows the visits.\<close>

lemma lint_file_step:
  "\<exists>rs new. lint_file E p results t = (Inr rs, t @ new) \<and> filter is_exists_check new = [ExistsSync p]"
proof (cases "existsSync E t p")
  case False
  then show ?thesis by (simp add: lint_file_def io_bind_def io_call_def io_return_def)
next
  case True
  then show ?thesis
    by (cases "lintFiles E (t @ [ExistsSync p]) [p]")
      (simp_all add: lint_file_def io_bind_def io_call_def io_return_def try_catch_def console_def)
qed

lemma lint_loop_total:
  "\<exists>rs new. for_of ps (lint_file E) acc t = (Inr rs, t @ new) \<and>
        filter is_exists_check new = map ExistsSync ps"
proof (induction ps arbitrary: acc t)
  case Nil
  show ?case by (simp add: io_return_def)
next
  case (Cons p ps)
  obtain rs1 new1 where 1: "lint_file E p acc t = (Inr rs1, t @ new1)"
    "filter is_exists_check new1 = [ExistsSync p]"
    using lint_file_step by blast
  obtain rs new where 2: "for_of ps (lint_file E) rs1 (t @ new1) = (Inr rs, (t @ new1) @ new)"
    "filter is_exists_check new = map ExistsSync ps"
    using Cons.IH by blast
  have "for_of (p # ps) (lint_file E) acc t = (Inr rs, t @ (new1 @ new))"
    using 1(1) 2(1) by (simp add: io_bind_def)
  moreover have "filter is_exists_check (new1 @ new) = map ExistsSync (p # ps)"
    using 1(2) 2(2) by simp
  ultimately show ?case by blast
qed

lemma runESLint_total:
  "\<exists>rs new. runESLint E ps t = (Inr rs, t @ new) \<and> filter is_exists_check new = map ExistsSync ps"
  using lint_loop_total [of ps E "[]" t] by (simp add: runESLint_def)


lemma getAISuggestions_trace:
  "\<exists>r new. getAISuggestions E fileName fileContent p t = (Inr r, t @ new) \<and>
        filter is_file_read new = []"
proof (cases "chatCompletionsCreate E t (review_prompt E fileName fileContent p)")
  case (Inl err)
  then show ?thesis by (simp add: getAISuggestions_failure)
next
  case (Inr response)
  then show ?thesis by (simp add: getAISuggestions_answer)
qed

lemma ai_file_trace:
  "\<exists>r new. ai_file E f acc t = (Inr r, t @ new) \<and>
        filter is_file_read new = (if is_code_file (filename f) then [ReadFileSync (filename f)] else [])"
proof (cases "is_code_file (filename f)")
  case False
  then show ?thesis by (simp add: ai_file_def io_return_def)
next
  case True
  show ?thesis
  proof (cases "readFileSync E t (filename f)")
    case (Inl err)
    with True show ?thesis
      by (simp add: ai_file_def try_catch_def io_bind_def io_call_def console_def io_return_def)
  next
    case (Inr fileContent)
    obtain r new where g:
      "getAISuggestions E (filename f) fileContent (patch f) (t @ [ReadFileSync (filename f)]) =
         (Inr r, (t @ [ReadFileSync (filename f)]) @ new)" "filter is_file_read new = []"
      using getAISuggestions_trace by blast
    have "\<exists>r'. ai_file E f acc t = (Inr r', t @ (ReadFileSync (filename f) # new))"
      using True Inr g(1)
      by (simp add: ai_file_def try_catch_def io_bind_def io_call_def io_return_def
          split: option.splits)
    then show ?thesis using True g(2) by force
  qed
qed

lemma ai_loop_trace:
  "\<exists>r new. for_of files (ai_file E) acc t = (Inr r, t @ new) \<and>
        filter is_file_read new = map ReadFileSync (filter is_code_file (map filename files))"
proof (induction files arbitrary: acc t)
  case Nil
  show ?case by (simp add: io_return_def)
next
  case (Cons f files)
  obtain r1 new1 where 1: "ai_file E f acc t = (Inr r1, t @ new1)"
    "filter is_file_read new1 = (if is_code_file (filename f) then [ReadFileSync (filename f)] else [])"
    using ai_file_trace by blast
  obtain r new where 2: "for_of files (ai_file E) r1 (t @ new1) = (Inr r, (t @ new1) @ new)"
    "filter is_file_read new = map ReadFileSync (filter is_code_file (map filename files))"
    using Cons.IH by blast
  have "for_of (f # files) (ai_file E) acc t = (Inr r, t @ (new1 @ new))"
    using 1(1) 2(1) by (simp add: io_bind_def)
  moreover have "filter is_file_read (new1 @ new) =
                 map ReadFileSync (filter is_code_file (map filename (f # files)))"
    using 1(2) 2(2) by simp
  ultimately show ?case by blast
qed

lemma generateAIReview_total:
  "\<exists>cs new. generateAIReview E files rs t = (Inr cs, t @ new) \<and>
        filter is_file_read new = map ReadFileSync (filter is_code_file (map filename files))"
  using ai_loop_trace [of files E "lint_error_comments rs" t]
  by (simp add: generateAIReview_def io_bind_def lint_phase_eq)

text \<open>The assembled list for no changed file, and for one file whose suggestion is kept.\<close>

lemma generateAIReview_no_files:
  "generateAIReview E [] eslintResults t = (Inr (lint_error_comments eslintResults), t)"
  by (simp add: generateAIReview_def io_bind_def io_return_def lint_phase_eq)

lemma lint_error_comments_no_errors:
  "lint_error_comments
     (map (\<lambda>r. r\<lparr>messages := filter (\<lambda>m. severity m \<noteq> Num 2) (messages r)\<rparr>) results) = []"
  by (induction results) (simp_all add: lint_error_comments_def)



section \<open>Properties of the publisher\<close>

lemma review_comment_eta: "\<lparr>path = path c, line = line c, body = body c\<rparr> = (c::ReviewComment)"
  by simp

lemma review_comments_map: "map (\<lambda>comment. \<lparr>path = path comment, line = line comment, body = body comment\<rparr>) cs = (cs::ReviewComment list)"
  by (induction cs) simp_all

lemma post_individually_step:
  "post_individually E owner repo n c u t =
     (Inr (), t @ CreateComment owner repo n (fallback_body c) #
        (case createComment E t owner repo n (fallback_body c) of
           Inl err \<Rightarrow> [Console (PostCommentFailed (path c) err)] | Inr _ \<Rightarrow> []))"
  by (simp add: post_individually_def try_catch_def io_call_def console_def split: sum.splits)

lemma post_loop:
  "\<exists>new. for_of cs (post_individually E owner repo n) () t = (Inr (), t @ new) \<and>
         filter is_issue_post new = map (\<lambda>c. CreateComment owner repo n (fallback_body c)) cs \<and>
         filter is_batched_review new = []"
proof (induction cs arbitrary: t)
  case Nil
  show ?case by (simp add: io_return_def)
next
  case (Cons c cs)
  let ?step = "CreateComment owner repo n (fallback_body c) #
        (case createComment E t owner repo n (fallback_body c) of
           Inl err \<Rightarrow> [Console (PostCommentFailed (path c) err)] | Inr _ \<Rightarrow> [])"
  obtain new where new: "for_of cs (post_individually E owner repo n) () (t @ ?step) = (Inr (), (t @ ?step) @ new)"
    "filter is_issue_post new = map (\<lambda>c. CreateComment owner repo n (fallback_body c)) cs"
    "filter is_batched_review new = []"
    using Cons.IH by blast
  have "for_of (c # cs) (post_individually E owner repo n) () t = (Inr (), t @ (?step @ new))"
    using new(1) by (simp add: io_bind_def post_individually_step)
  moreover have "filter is_issue_post (?step @ new) = map (\<lambda>c. CreateComment owner repo n (fallback_body c)) (c # cs)"
    using new(2) by (simp split: sum.splits)
  moreover have "filter is_batched_review (?step @ new) = []"
    using new(3) by (simp split: sum.splits)
  ultimately show ?case by blast
qed

lemma postReviewComments_fallback:
  assumes "comments \<noteq> []"
    and "createReview E t owner repo n (js ''COMMENT'') (review_body (length comments)) comments = Inl err"
  shows "\<exists>new. postReviewComments E owner repo n comments t =
           (Inr (), t @ CreateReview owner repo n (js ''COMMENT'') (review_body (length comments)) comments #
                    Console (CreateReviewFailed err) # new) \<and>
         filter is_issue_post new = map (\<lambda>c. CreateComment owner repo n (fallback_body c)) (take 10 comments) \<and>
         filter is_batched_review new = []"
proof -
  let ?t1 = "t @ [CreateReview owner repo n (js ''COMMENT'') (review_body (length comments)) comments,
                  Console (CreateReviewFailed err)]"
  obtain new where new: "for_of (take 10 comments) (post_individually E owner repo n) () ?t1 = (Inr (), ?t1 @ new)"
    "filter is_issue_post new = map (\<lambda>c. CreateComment owner repo n (fallback_body c)) (take 10 comments)"
    "filter is_batched_review new = []"
    using post_loop by blast
  have "postReviewComments E owner repo n comments t = (Inr (), ?t1 @ new)"
    using assms new(1)
    by (simp add: postReviewComments_def try_catch_def io_call_def io_bind_def console_def Let_def
        review_comments_map)
  then show ?thesis using new(2,3) by simp
qed

lemma postReviewComments_batched:
  assumes "comments \<noteq> []"
    and "createReview E t owner repo n (js ''COMMENT'') (review_body (length comments)) comments = Inr u"
  shows "postReviewComments E owner repo n comments t =
           (Inr (), t @ [CreateReview owner repo n (js ''COMMENT'') (review_body (length comments)) comments])"
  using assms
  by (simp add: postReviewComments_def try_catch_def io_call_def Let_def review_comments_map)

lemma postReviewComments_empty:
  "postReviewComments E owner repo n [] t =
     (createComment E t owner repo n no_issues_body, t @ [CreateComment owner repo n no_issues_body])"
  by (simp add: postReviewComments_def io_call_def)

lemma postReviewComments_extends:
  "\<exists>res new. postReviewComments E owner repo n cs t = (res, t @ new)"
proof (cases "cs = []")
  case True
  then show ?thesis by (simp add: postReviewComments_empty)
next
  case False
  show ?thesis
  proof (cases "createReview E t owner repo n (js ''COMMENT'') (review_body (length cs)) cs")
    case (Inl err)
    then show ?thesis using postReviewComments_fallback [OF False Inl] by auto
  next
    case (Inr u)
    then show ?thesis using postReviewComments_batched [OF False Inr] by simp
  qed
qed


section \<open>Properties of the run\<close>

lemma run_with_context:
  assumes "pr_context E owner repo n"
  shows "reviewPullRequest E t =
         try_catch
           (io_bind (getChangedFiles E owner repo (Num n))
              (\<lambda>changedFiles.
                 io_bind (console (FoundChangedFiles (length changedFiles)))
                   (\<lambda>_. let codeFiles = filter is_reviewed changedFiles
                        in if length codeFiles = 0 then console NoCodeFiles
                           else
                             io_bind (runESLint E (map filename codeFiles))
                               (\<lambda>eslintResults.
                                  io_bind (generateAIReview E codeFiles eslintResults)
                                    (\<lambda>reviewComments.
                                       io_bind (postReviewComments E owner repo (Num n) reviewComments)
                                         (\<lambda>_. console (ReviewCompleted (length reviewComments))))))))
           (\<lambda>err. io_bind (console (ErrorDuringReview err)) (\<lambda>_. io_throw err))
           (t @ [Console (StartingReview (Num n) owner repo)])"
proof -
  obtain r v where r: "GITHUB_REPOSITORY E = Some r" "index (split_slash r) 0 = Some owner"
    "index (split_slash r) 1 = Some repo" "owner \<noteq> []" "repo \<noteq> []"
    and v: "GITHUB_PR_NUMBER E = Some v" "parseInt v = Num n" "n \<noteq> 0"
    using assms by (auto simp add: pr_context_def split: option.splits)
  have "v \<noteq> []" using v(2) by (auto simp add: parseInt_empty)
  then show ?thesis
    using r v by (simp add: reviewPullRequest_def Let_def truthy_number_def io_bind_def console_def)
qed

lemma run_missing_context:
  assumes "GITHUB_PR_NUMBER E = None \<or> GITHUB_PR_NUMBER E = Some (js ''0'') \<or>
           (\<exists>v. GITHUB_PR_NUMBER E = Some v \<and> parseInt v = NaN)"
  shows "reviewPullRequest E t = (Inl (Error (js ''Missing GitHub context variables'')), t)"
proof -
  define pn where
    "pn = parseInt (case GITHUB_PR_NUMBER E of
                      None \<Rightarrow> js ''0''
                    | Some v \<Rightarrow> if v \<noteq> [] then v else js ''0'')"
  have "pn = Num 0 \<or> pn = NaN"
    using assms unfolding pn_def by (auto simp add: parseInt_zero split: if_splits)
  then have nt: "\<not> truthy_number pn"
    by (auto simp add: truthy_number_def)
  show ?thesis
    unfolding reviewPullRequest_def pn_def [symmetric] Let_def
    using nt by (simp add: io_throw_def missing_context_def split: option.splits)
qed

lemma run_no_code_files:
  assumes "pr_context E owner repo n"
    and "listFiles E (t @ [Console (StartingReview (Num n) owner repo)]) owner repo (Num n) = Inr changedFiles"
    and "filter is_reviewed changedFiles = []"
  shows "reviewPullRequest E t =
         (Inr (), t @ [Console (StartingReview (Num n) owner repo), ListFiles owner repo (Num n),
                       Console (FoundChangedFiles (length changedFiles)), Console NoCodeFiles])"
  using assms(2,3)
  by (simp add: run_with_context [OF assms(1)] try_catch_def io_bind_def getChangedFiles_def
      io_call_def console_def)

lemma run_stages:
  assumes "pr_context E owner repo n"
    and "listFiles E (t @ [Console (StartingReview (Num n) owner repo)]) owner repo (Num n) = Inr changedFiles"
    and "filter is_reviewed changedFiles = codeFiles" "codeFiles \<noteq> []"
    and "runESLint E (map filename codeFiles)
           (t @ [Console (StartingReview (Num n) owner repo), ListFiles owner repo (Num n),
                 Console (FoundChangedFiles (length changedFiles))]) = (Inr rs, t1)"
    and "generateAIReview E codeFiles rs t1 = (Inr cs, t2)"
    and "postReviewComments E owner repo (Num n) cs t2 = (Inr u, t3)"
  shows "reviewPullRequest E t = (Inr (), t3 @ [Console (ReviewCompleted (length cs))])"
  using assms(2-7)
  by (simp add: run_with_context [OF assms(1)] try_catch_def io_bind_def getChangedFiles_def
      io_call_def console_def Let_def)

lemma run_starts_with_list_files:
  assumes "pr_context E owner repo n"
  shows "\<exists>res rest. reviewPullRequest E t =
           (res, t @ Console (StartingReview (Num n) owner repo) # ListFiles owner repo (Num n) # rest)"
proof (cases "listFiles E (t @ [Console (StartingReview (Num n) owner repo)]) owner repo (Num n)")
  case (Inl err)
  then show ?thesis
    by (simp add: run_with_context [OF assms] try_catch_def io_bind_def getChangedFiles_def
        io_call_def console_def io_throw_def)
next
  case (Inr changedFiles)
  let ?t0 = "t @ [Console (StartingReview (Num n) owner repo), ListFiles owner repo (Num n),
                  Console (FoundChangedFiles (length changedFiles))]"
  let ?code = "filter is_reviewed changedFiles"
  show ?thesis
  proof (cases "?code = []")
    case True
    then show ?thesis using run_no_code_files [OF assms Inr True] by simp
  next
    case False
    obtain rs new1 where 1: "runESLint E (map filename ?code) ?t0 = (Inr rs, ?t0 @ new1)"
      using runESLint_total by blast
    obtain cs new2 where 2: "generateAIReview E ?code rs (?t0 @ new1) = (Inr cs, (?t0 @ new1) @ new2)"
      using generateAIReview_total by blast
    obtain res new3 where 3:
      "postReviewComments E owner repo (Num n) cs ((?t0 @ new1) @ new2) = (res, ((?t0 @ new1) @ new2) @ new3)"
      using postReviewComments_extends by blast
    show ?thesis
      using Inr False 1 2 3
      by (cases res)
        (simp_all add: run_with_context [OF assms] try_catch_def io_bind_def getChangedFiles_def
          io_call_def console_def io_throw_def Let_def)
  qed
qed


text \<open>The example inputs.\<close>

lemma split_octo_demo: "index (split_slash (js ''octo/demo'')) 0 = Some (js ''octo'')"
  "index (split_slash (js ''octo/demo'')) 1 = Some (js ''demo'')"
  by (simp_all add: index_def js_def)

lemma quiet_context: "pr_context quiet_env (js ''octo'') (js ''demo'') 7"
  using parseInt_seven split_octo_demo
  by (simp add: pr_context_def quiet_env_def) (simp add: js_def)

lemma file_a_is_code: "is_code_file (js ''src/a.ts'')"
  by (simp add: is_code_file_def code_extensions_def ends_with_def js_def)

lemma file_a_reviewed: "filter is_reviewed [file_a] = [file_a]"
  using file_a_is_code by (simp add: is_reviewed_def file_a_def) (simp add: js_def)

lemma start_line_file_a: "start_line (patch file_a) = Num 20"
  using start_line_example [of "[]" "js '' export''"] by (simp add: file_a_def js_def)


lemma quiet_answer:
  assumes "readFileSync E = readFileSync quiet_env"
    and "chatCompletionsCreate E = chatCompletionsCreate quiet_env"
  shows "ai_file E file_a acc t =
     (Inr acc,
      t @ [ReadFileSync (js ''src/a.ts''),
           ChatCompletionsCreate (review_prompt E (js ''src/a.ts'') (js ''let x = 1'') (patch file_a))])"
proof -
  have 1: "is_code_file (filename file_a)"
    using file_a_is_code by (simp add: file_a_def)
  have 2: "readFileSync E t (filename file_a) = Inr (js ''let x = 1'')"
    by (simp add: assms quiet_env_def)
  have 3: "chatCompletionsCreate E (t @ [ReadFileSync (filename file_a)])
           (review_prompt E (filename file_a) (js ''let x = 1'') (patch file_a)) =
           Inr (completion_of (js ''Looks good!''))"
    by (simp add: assms quiet_env_def)
  have 4: "response_text (completion_of (js ''Looks good!'')) = Some (js ''Looks good!'')"
    by (simp add: response_text_def completion_of_def)
  have 5: "length (trim (js ''Looks good!'')) \<le> 50"
    by (simp add: trim_def js_def is_white_space_def)
  have 8: "filename file_a = js ''src/a.ts''"
    by (simp add: file_a_def)
  show ?thesis
    using ai_file_answer [OF 1 2 3, of acc] 4 5 8 by simp
qed

section \<open>The claims\<close>

text \<open>
  C1. Every comment handed to the publisher should have as its path the filename of a file of
  the filtered change set. The AI comments do (\<open>ai_comment_paths\<close>); a lint comment takes its
  path from the \<^verbatim>\<open>filePath\<close> of the analyzer's result (\<open>lint_comment_paths\<close>), which the
  code never maps back to the filename it asked about, so the paths of the assembled list are
  only known to be filenames of the change set or paths reported by the analyzer
  (\<open>generateAIReview_paths\<close>). The theorem runs the bot where the analyzer answers with the
  absolute path of the file: the batched review carries a comment whose path is not a filename
  of the change set.
\<close>

theorem C1_lint_comment_outside_change_set:
  "snd (reviewPullRequest absolute_path_env []) =
     [Console (StartingReview (Num 7) (js ''octo'') (js ''demo'')),
      ListFiles (js ''octo'') (js ''demo'') (Num 7),
      Console (FoundChangedFiles 1),
      ExistsSync (js ''src/a.ts''),
      LintFiles [js ''src/a.ts''],
      ReadFileSync (js ''src/a.ts''),
      ChatCompletionsCreate
        (review_prompt absolute_path_env (js ''src/a.ts'') (js ''let x = 1'') (patch file_a)),
      CreateReview (js ''octo'') (js ''demo'') (Num 7) (js ''COMMENT'') (review_body 1)
        [\<lparr>path = js ''/home/runner/work/demo/demo/src/a.ts'', line = Num 3,
          body = js ''**ESLint Error**: Missing semicolon. (semi)''\<rparr>],
      Console (ReviewCompleted 1)] \<and>
   js ''/home/runner/work/demo/demo/src/a.ts'' \<notin> set (map filename (filter is_reviewed [file_a]))"
proof -
  let ?E = absolute_path_env
  let ?a = "js ''src/a.ts''"
  let ?r = "\<lparr>filePath = js ''/home/runner/work/demo/demo/src/a.ts'', messages = [semi_finding]\<rparr>"
  let ?c = "\<lparr>path = js ''/home/runner/work/demo/demo/src/a.ts'', line = Num 3,
          body = js ''**ESLint Error**: Missing semicolon. (semi)''\<rparr>"
  let ?t0 = "[] @ [Console (StartingReview (Num 7) (js ''octo'') (js ''demo'')),
              ListFiles (js ''octo'') (js ''demo'') (Num 7), Console (FoundChangedFiles (length [file_a]))]"
  let ?t1 = "?t0 @ [ExistsSync ?a, LintFiles [?a]]"
  let ?t2 = "?t1 @ [ReadFileSync ?a,
                    ChatCompletionsCreate (review_prompt ?E ?a (js ''let x = 1'') (patch file_a))]"
  have "GITHUB_REPOSITORY ?E = GITHUB_REPOSITORY quiet_env"
    "GITHUB_PR_NUMBER ?E = GITHUB_PR_NUMBER quiet_env"
    by (simp_all add: absolute_path_env_def)
  then have ctx: "pr_context ?E (js ''octo'') (js ''demo'') 7"
    using quiet_context by (simp add: pr_context_def split: option.splits)
  have lf: "listFiles ?E ([] @ [Console (StartingReview (Num 7) (js ''octo'') (js ''demo''))])
              (js ''octo'') (js ''demo'') (Num 7) = Inr [file_a]"
    by (simp add: absolute_path_env_def quiet_env_def)
  have ne: "[file_a] \<noteq> []" by simp
  have lint: "runESLint ?E (map filename [file_a]) ?t0 = (Inr [?r], ?t1)"
    by (simp add: runESLint_def lint_file_def io_bind_def io_return_def io_call_def try_catch_def
        file_a_def absolute_path_env_def quiet_env_def)
  have lc: "lint_error_comments [?r] = [?c]"
    by (simp add: lint_error_comments_def semi_finding_def js_def)
  have same: "readFileSync ?E = readFileSync quiet_env"
    "chatCompletionsCreate ?E = chatCompletionsCreate quiet_env"
    by (simp_all add: absolute_path_env_def)
  have gen: "generateAIReview ?E [file_a] [?r] ?t1 = (Inr [?c], ?t2)"
    using quiet_answer [OF same, of "[?c]" ?t1]
    by (simp add: generateAIReview_def io_bind_def io_return_def lint_phase_eq lc)
  have rev: "createReview ?E ?t2 (js ''octo'') (js ''demo'') (Num 7) (js ''COMMENT'')
               (review_body (length [?c])) [?c] = Inr ()"
    by (simp add: absolute_path_env_def quiet_env_def)
  have post: "postReviewComments ?E (js ''octo'') (js ''demo'') (Num 7) [?c] ?t2 =
              (Inr (), ?t2 @ [CreateReview (js ''octo'') (js ''demo'') (Num 7) (js ''COMMENT'')
                                (review_body (length [?c])) [?c]])"
    using rev by (intro postReviewComments_batched) simp_all
  have out: "js ''/home/runner/work/demo/demo/src/a.ts'' \<notin> set (map filename (filter is_reviewed [file_a]))"
    by (simp add: file_a_reviewed) (simp add: file_a_def js_def)
  show ?thesis
    using run_stages [OF ctx lf file_a_reviewed ne lint gen post] out by simp
qed

text \<open>
  C2. The assembled list is the lint-error comments of all results, in the order of the
  results and of their findings, followed by the AI comments, which follow the order of the
  changed files: the AI comments are the comments of a subsequence of the changed files.
  Nothing is sorted or merged by line.
\<close>

theorem C2_lint_comments_precede_ai_comments:
  "\<exists>fs t'. generateAIReview E changedFiles eslintResults t =
            (Inr (lint_error_comments eslintResults @ map ai_comment fs), t') \<and>
        subseq (map fst fs) changedFiles"
  using generateAIReview_shape [of E changedFiles eslintResults t] by blast

text \<open>
  C3. When the completion service answers for a file, the generator keeps no suggestion if
  the response has no text, or the trimmed text has at most 50 characters, or the text
  contains \<^verbatim>\<open>looks good\<close> in any letter case; otherwise it keeps the trimmed text behind
  the marker. So the file gets no AI comment for the response \<^verbatim>\<open>Looks good!\<close>, and
  exactly one AI comment for a response of 80 characters (as \<^verbatim>\<open>trim\<close> counts them)
  without the phrase.
\<close>

theorem C3_suggestion_filter:
  assumes "is_code_file (filename file)"
    and "readFileSync E t (filename file) = Inr fileContent"
    and "chatCompletionsCreate E (t @ [ReadFileSync (filename file)])
           (review_prompt E (filename file) fileContent (patch file)) = Inr response"
  shows "fst (getAISuggestions E (filename file) fileContent (patch file)
                (t @ [ReadFileSync (filename file)])) =
           Inr (case response_text response of
                  None \<Rightarrow> None
                | Some c \<Rightarrow>
                    if length (trim c) \<le> 50 \<or> str_includes (toLowerCase c) (js ''looks good'')
                    then None
                    else Some (ai_review_marker @ trim c)) \<and>
         fst (ai_file E file acc t) =
           Inr (acc @ (case response_text response of
                         None \<Rightarrow> []
                       | Some c \<Rightarrow>
                           if length (trim c) \<le> 50 \<or> str_includes (toLowerCase c) (js ''looks good'')
                           then []
                           else [\<lparr>path = filename file, line = start_line (patch file),
                                  body = ai_review_marker @ trim c\<rparr>])) \<and>
         (response_text response = Some (js ''Looks good!'') \<longrightarrow>
            fst (ai_file E file acc t) = Inr acc) \<and>
         (\<forall>c. response_text response = Some c \<and> length (trim c) = 80 \<and>
              \<not> str_includes (toLowerCase c) (js ''looks good'') \<longrightarrow>
              fst (ai_file E file acc t) =
                Inr (acc @ [\<lparr>path = filename file, line = start_line (patch file),
                             body = ai_review_marker @ trim c\<rparr>]))"
proof -
  have short: "length (trim (js ''Looks good!'')) \<le> 50"
    by (simp add: trim_def js_def is_white_space_def)
  have g: "fst (getAISuggestions E (filename file) fileContent (patch file)
                (t @ [ReadFileSync (filename file)])) =
           Inr (case response_text response of
                  None \<Rightarrow> None
                | Some c \<Rightarrow>
                    if length (trim c) \<le> 50 \<or> str_includes (toLowerCase c) (js ''looks good'')
                    then None
                    else Some (ai_review_marker @ trim c))"
    by (simp add: getAISuggestions_answer [OF assms(3)] looks_good_trim split: option.splits)
  show ?thesis
    using g short by (simp add: ai_file_answer [OF assms])
qed

text \<open>
  Witness of C3: the completion service answers the 80 characters of \<open>long_answer\<close> for the
  file \<open>file_a\<close>.
\<close>

theorem C3_suggestion_filter_witness:
  "fst (getAISuggestions talkative_env (js ''src/a.ts'') (js ''let x = 1'')
          (Some (js ''@@ -10,5 +20,6 @@ export'')) [ReadFileSync (js ''src/a.ts'')]) =
     Inr (Some (ai_review_marker @ long_answer)) \<and>
   fst (ai_file talkative_env file_a [] []) =
     Inr [\<lparr>path = js ''src/a.ts'', line = Num 20, body = ai_review_marker @ long_answer\<rparr>]"
proof -
  have 1: "is_code_file (filename file_a)"
    by (simp add: file_a_def is_code_file_def code_extensions_def ends_with_def js_def)
  have 2: "readFileSync talkative_env [] (filename file_a) = Inr (js ''let x = 1'')"
    by (simp add: talkative_env_def quiet_env_def)
  have 3: "chatCompletionsCreate talkative_env ([] @ [ReadFileSync (filename file_a)])
           (review_prompt talkative_env (filename file_a) (js ''let x = 1'') (patch file_a)) =
           Inr (completion_of long_answer)"
    by (simp add: talkative_env_def quiet_env_def)
  have 4: "response_text (completion_of long_answer) = Some long_answer"
    by (simp add: response_text_def completion_of_def)
  have 5: "trim long_answer = long_answer"
    by (simp add: trim_def long_answer_def js_def is_white_space_def)
  have 6: "length long_answer = 80"
    by (simp add: long_answer_def)
  have 7: "\<not> str_includes (toLowerCase long_answer) (js ''looks good'')"
    by (simp add: long_answer_def js_def toLowerCase_def lower_unit_def)
  have 8: "start_line (patch file_a) = Num 20"
    by (rule start_line_file_a)
  have 9: "filename file_a = js ''src/a.ts''" "patch file_a = Some (js ''@@ -10,5 +20,6 @@ export'')"
    by (simp_all add: file_a_def)
  show ?thesis
    using C3_suggestion_filter [OF 1 2 3, of "[]"] 4 5 6 7 8 9 by simp
qed



text \<open>
  C5. With no changed file the assembled list is exactly one comment for each finding of
  severity 2, in the order of the results and of their findings: at the path of the result
  and the line of the finding, with a body that says \<^verbatim>\<open>ESLint Error\<close>, gives the message
  and names the rule when the finding has one. The findings of any other severity, the
  warnings among them, give no comment at all. With changed files the list is that same
  list of lint comments (\<open>lint_error_comments\<close>) followed by AI comments only, none of which
  is marked as a lint error.
\<close>

theorem C5_only_lint_errors_become_comments:
  "generateAIReview E [] eslintResults t =
     (Inr (concat
             (map (\<lambda>r. map (\<lambda>m. \<lparr>path = filePath r,
                                 line = LintMessage.line m,
                                 body = js ''**ESLint Error**: '' @ message m @
                                        (case ruleId m of
                                           None \<Rightarrow> []
                                         | Some rule \<Rightarrow>
                                             if rule = [] then []
                                             else js '' ('' @ rule @ js '')'')\<rparr>)
                           (filter (\<lambda>m. severity m = Num 2) (messages r)))
                eslintResults)), t) \<and>
   generateAIReview E []
     (map (\<lambda>r. r\<lparr>messages := filter (\<lambda>m. severity m \<noteq> Num 2) (messages r)\<rparr>) eslintResults) t =
     (Inr [], t) \<and>
   (\<exists>fs t'. generateAIReview E changedFiles eslintResults t =
              (Inr (lint_error_comments eslintResults @ map ai_comment fs), t') \<and>
            subseq (map fst fs) changedFiles \<and>
            list_all (\<lambda>c. \<not> prefix (js ''**ESLint Error**: '') (body c)) (map ai_comment fs))"
proof -
  have exact: "generateAIReview E [] eslintResults t =
     (Inr (concat
             (map (\<lambda>r. map (\<lambda>m. \<lparr>path = filePath r,
                                 line = LintMessage.line m,
                                 body = js ''**ESLint Error**: '' @ message m @
                                        (case ruleId m of
                                           None \<Rightarrow> []
                                         | Some rule \<Rightarrow>
                                             if rule = [] then []
                                             else js '' ('' @ rule @ js '')'')\<rparr>)
                           (filter (\<lambda>m. severity m = Num 2) (messages r)))
                eslintResults)), t)"
    by (simp add: generateAIReview_no_files lint_error_comments_def)
  have warnings: "generateAIReview E []
     (map (\<lambda>r. r\<lparr>messages := filter (\<lambda>m. severity m \<noteq> Num 2) (messages r)\<rparr>) eslintResults) t =
     (Inr [], t)"
    by (simp only: generateAIReview_no_files lint_error_comments_no_errors)
  obtain fs t' where g: "generateAIReview E changedFiles eslintResults t =
            (Inr (lint_error_comments eslintResults @ map ai_comment fs), t')"
    "subseq (map fst fs) changedFiles"
    using generateAIReview_shape [of E changedFiles eslintResults t] by blast
  have "list_all (\<lambda>c. \<not> prefix (js ''**ESLint Error**: '') (body c)) (map ai_comment fs)"
    using ai_comment_no_lint_prefix by (simp add: list_all_iff eslint_error_prefix_def)
  then show ?thesis
    using exact warnings g by blast
qed

text \<open>
  C6. When the batched review fails, the publisher does not throw, and the general comments
  it then posts are the fallback bodies of the first ten comments of the list, in order,
  whatever the outcome of each post: ten posts when the list has more than ten entries. The
  batched review is attempted once.
\<close>

theorem C6_fallback_posts_first_ten:
  assumes "comments \<noteq> []"
    and "createReview E t owner repo n (js ''COMMENT'') (review_body (length comments)) comments = Inl err"
  shows "\<exists>new. postReviewComments E owner repo n comments t = (Inr (), t @ new) \<and>
           filter is_issue_post new =
             map (\<lambda>c. CreateComment owner repo n (fallback_body c)) (take 10 comments) \<and>
           length (filter is_issue_post new) = min 10 (length comments) \<and>
           length (filter is_batched_review new) = 1"
proof -
  obtain new where new:
    "postReviewComments E owner repo n comments t =
       (Inr (), t @ CreateReview owner repo n (js ''COMMENT'') (review_body (length comments)) comments #
                Console (CreateReviewFailed err) # new)"
    "filter is_issue_post new = map (\<lambda>c. CreateComment owner repo n (fallback_body c)) (take 10 comments)"
    "filter is_batched_review new = []"
    using postReviewComments_fallback [OF assms] by blast
  let ?new = "CreateReview owner repo n (js ''COMMENT'') (review_body (length comments)) comments #
                Console (CreateReviewFailed err) # new"
  have "filter is_issue_post ?new =
          map (\<lambda>c. CreateComment owner repo n (fallback_body c)) (take 10 comments)"
    using new(2) by simp
  moreover have "length (filter is_issue_post ?new) = min 10 (length comments)"
    using new(2) by (simp add: min.commute)
  moreover have "length (filter is_batched_review ?new) = 1"
    using new(3) by simp
  ultimately show ?thesis using new(1) by blast
qed

text \<open>
  Witness of C6: fifteen comments, the batched review fails and so does the post of the
  third comment; the posts of the first ten comments are all attempted.
\<close>

theorem C6_fallback_posts_first_ten_witness:
  "length fifteen_comments = 15 \<and>
   createComment rejecting_env [] (js ''octo'') (js ''demo'') (Num 7)
     (fallback_body (numbered_comment 3)) = Inl (Error (js ''Forbidden'')) \<and>
   (\<exists>new. postReviewComments rejecting_env (js ''octo'') (js ''demo'') (Num 7) fifteen_comments [] =
            (Inr (), new) \<and>
          filter is_issue_post new =
            map (\<lambda>c. CreateComment (js ''octo'') (js ''demo'') (Num 7) (fallback_body c))
              (map numbered_comment [1, 2, 3, 4, 5, 6, 7, 8, 9, 10]) \<and>
          length (filter is_issue_post new) = 10)"
proof -
  have 1: "fifteen_comments \<noteq> []" "length fifteen_comments = 15"
    "take 10 fifteen_comments = map numbered_comment [1, 2, 3, 4, 5, 6, 7, 8, 9, 10]"
    by (simp_all add: fifteen_comments_def)
  have 2: "createReview rejecting_env [] (js ''octo'') (js ''demo'') (Num 7) (js ''COMMENT'')
             (review_body (length fifteen_comments)) fifteen_comments =
           Inl (Error (js ''Unprocessable Entity''))"
    by (simp add: rejecting_env_def)
  have 3: "createComment rejecting_env [] (js ''octo'') (js ''demo'') (Num 7)
             (fallback_body (numbered_comment 3)) = Inl (Error (js ''Forbidden''))"
    by (simp add: rejecting_env_def)
  show ?thesis
    using C6_fallback_posts_first_ten [OF 1(1) 2] 1(2,3) 3 by simp blast
qed

text \<open>
  C7. For the empty list the publisher makes one call, the post of the general comment that
  no issues were found, and its outcome is the outcome of that call. For a non-empty list its
  first call is one batched review of kind \<^verbatim>\<open>COMMENT\<close> that carries the list as it is,
  and no second batched review follows.
\<close>

theorem C7_empty_list_one_general_comment:
  "postReviewComments E owner repo n [] t =
     (createComment E t owner repo n no_issues_body,
      t @ [CreateComment owner repo n no_issues_body]) \<and>
   (comments \<noteq> [] \<longrightarrow>
      (\<exists>res rest.
         postReviewComments E owner repo n comments t =
           (res, t @ CreateReview owner repo n (js ''COMMENT'') (review_body (length comments))
                        comments # rest) \<and>
         filter is_batched_review rest = []))"
proof (intro conjI impI)
  show "postReviewComments E owner repo n [] t =
     (createComment E t owner repo n no_issues_body,
      t @ [CreateComment owner repo n no_issues_body])"
    by (rule postReviewComments_empty)
next
  assume ne: "comments \<noteq> []"
  show "\<exists>res rest.
         postReviewComments E owner repo n comments t =
           (res, t @ CreateReview owner repo n (js ''COMMENT'') (review_body (length comments))
                        comments # rest) \<and>
         filter is_batched_review rest = []"
  proof (cases "createReview E t owner repo n (js ''COMMENT'') (review_body (length comments)) comments")
    case (Inl err)
    then show ?thesis using postReviewComments_fallback [OF ne Inl] by auto
  next
    case (Inr u)
    then show ?thesis using postReviewComments_batched [OF ne Inr] by simp
  qed
qed

text \<open>Witness of C7: the empty list and a list of one comment.\<close>

theorem C7_empty_list_one_general_comment_witness:
  "postReviewComments quiet_env (js ''octo'') (js ''demo'') (Num 7) [] [] =
     (Inr (), [CreateComment (js ''octo'') (js ''demo'') (Num 7) no_issues_body]) \<and>
   (\<exists>res rest.
      postReviewComments quiet_env (js ''octo'') (js ''demo'') (Num 7) [numbered_comment 1] [] =
        (res, CreateReview (js ''octo'') (js ''demo'') (Num 7) (js ''COMMENT'') (review_body 1)
                [numbered_comment 1] # rest) \<and>
      filter is_batched_review rest = [])"
  using C7_empty_list_one_general_comment
    [of quiet_env "js ''octo''" "js ''demo''" "Num 7" "[]" "[numbered_comment 1]"]
  by (simp add: quiet_env_def)

text \<open>
  C8. When the context is valid, the list of files is fetched and no file of it has one of
  the four extensions and a status other than \<^verbatim>\<open>removed\<close>, the run returns without an
  error after the fetch and two lines of log: no analyzer call, no completion call, no post.
\<close>

theorem C8_no_code_files_no_work:
  assumes "pr_context E owner repo n"
    and "listFiles E (t @ [Console (StartingReview (Num n) owner repo)]) owner repo (Num n) =
           Inr changedFiles"
    and "filter (\<lambda>f. (\<exists>x \<in> set [js ''.ts'', js ''.js'', js ''.tsx'', js ''.jsx'']. suffix x (filename f)) \<and>
                      status f \<noteq> js ''removed'') changedFiles = []"
  shows "reviewPullRequest E t =
         (Inr (), t @ [Console (StartingReview (Num n) owner repo), ListFiles owner repo (Num n),
                       Console (FoundChangedFiles (length changedFiles)), Console NoCodeFiles])"
proof -
  have "is_reviewed = (\<lambda>f. (\<exists>x \<in> set [js ''.ts'', js ''.js'', js ''.tsx'', js ''.jsx'']. suffix x (filename f)) \<and>
                      status f \<noteq> js ''removed'')"
    by (rule ext) (simp only: is_reviewed_def is_code_file_suffix)
  then have "filter is_reviewed changedFiles = []" using assms(3) by simp
  then show ?thesis using assms(1,2) by (rule run_no_code_files [rotated 2])
qed

text \<open>Witness of C8: a pull request that touches a document and removes a source file.\<close>

theorem C8_no_code_files_no_work_witness:
  "reviewPullRequest docs_only_env [] =
     (Inr (), [Console (StartingReview (Num 7) (js ''octo'') (js ''demo'')),
               ListFiles (js ''octo'') (js ''demo'') (Num 7),
               Console (FoundChangedFiles 2), Console NoCodeFiles])"
proof -
  have p: "parseInt (js ''7'') = Num 7"
    by (rule parseInt_seven)
  have 1: "pr_context docs_only_env (js ''octo'') (js ''demo'') 7"
    using p by (simp add: pr_context_def docs_only_env_def quiet_env_def index_def) (simp add: js_def)
  have 2: "listFiles docs_only_env ([] @ [Console (StartingReview (Num 7) (js ''octo'') (js ''demo''))])
             (js ''octo'') (js ''demo'') (Num 7) =
           Inr [\<lparr>filename = js ''README.md'', status = js ''modified'', patch = None\<rparr>,
                \<lparr>filename = js ''src/old.ts'', status = js ''removed'', patch = None\<rparr>]"
    by (simp add: docs_only_env_def)
  have 3: "filter (\<lambda>f. (\<exists>x \<in> set [js ''.ts'', js ''.js'', js ''.tsx'', js ''.jsx'']. suffix x (filename f)) \<and>
                      status f \<noteq> js ''removed'')
             [\<lparr>filename = js ''README.md'', status = js ''modified'', patch = None\<rparr>,
              \<lparr>filename = js ''src/old.ts'', status = js ''removed'', patch = None\<rparr>] = []"
    by (simp add: ends_with_suffix [symmetric] ends_with_def js_def)
  show ?thesis
    using C8_no_code_files_no_work [OF 1 2 3] by simp
qed




text \<open>
  C10. When the PR number variable is unset, is \<^verbatim>\<open>0\<close>, or does not parse to a number, the
  run throws \<^verbatim>\<open>Missing GitHub context variables\<close> with no event at all. A negative
  number passes the check: \<^verbatim>\<open>-1\<close> parses to \<open>-1\<close>, and with a valid repository variable
  the list of files is requested for that PR number.
\<close>

theorem C10_pr_number_check:
  "(GITHUB_PR_NUMBER E = None \<or> GITHUB_PR_NUMBER E = Some (js ''0'') \<or>
    (\<exists>v. GITHUB_PR_NUMBER E = Some v \<and> parseInt v = NaN) \<longrightarrow>
      reviewPullRequest E t = (Inl (Error (js ''Missing GitHub context variables'')), t)) \<and>
   parseInt (js ''-1'') = Num (- 1) \<and>
   (pr_context E owner repo n \<and> n < 0 \<longrightarrow>
      (\<exists>res rest. reviewPullRequest E t =
         (res, t @ Console (StartingReview (Num n) owner repo) # ListFiles owner repo (Num n) # rest)))"
  using run_missing_context [of E t] run_starts_with_list_files [of E owner repo n t] parseInt_minus_one
  by blast

text \<open>Witness of C10: the variable holds \<^verbatim>\<open>abc\<close>, and it holds \<^verbatim>\<open>-1\<close>.\<close>

theorem C10_pr_number_check_witness:
  "reviewPullRequest (quiet_env\<lparr>GITHUB_PR_NUMBER := Some (js ''abc'')\<rparr>) [] =
     (Inl (Error (js ''Missing GitHub context variables'')), []) \<and>
   (\<exists>res rest. reviewPullRequest negative_number_env [] =
      (res, Console (StartingReview (Num (- 1)) (js ''octo'') (js ''demo'')) #
            ListFiles (js ''octo'') (js ''demo'') (Num (- 1)) # rest))"
proof -
  have 1: "parseInt (js ''abc'') = NaN"
    by (simp add: parseInt_def js_def is_white_space_def is_radix_digit_def digit_value_def)
  have 2: "pr_context negative_number_env (js ''octo'') (js ''demo'') (- 1)"
    using parseInt_minus_one split_octo_demo
    by (simp add: pr_context_def negative_number_env_def quiet_env_def) (simp add: js_def)
  have 3: "GITHUB_PR_NUMBER (quiet_env\<lparr>GITHUB_PR_NUMBER := Some (js ''abc'')\<rparr>) = Some (js ''abc'')"
    by simp
  show ?thesis
    using C10_pr_number_check [of "quiet_env\<lparr>GITHUB_PR_NUMBER := Some (js ''abc'')\<rparr>" "[]"]
      C10_pr_number_check [of negative_number_env "[]" "js ''octo''" "js ''demo''" "- 1"]
      1 2 3
    by simp
qed

end
